theory Spec2Isabelle
  imports Complex_Main "HOL-Library.AList"
begin

section \<open>Macros and the macro system (movement/enhanced driver control header)\<close>

text \<open>
  The abstract class \<open>Macro\<close> has three virtual methods. A macro object is a value of
  type \<open>'m\<close>; its methods are the fields of the record below (the table of virtual
  functions). \<open>execute\<close> may act on everything outside the macro system (chassis, clamp,
  ...), which is the type \<open>'w\<close>.
\<close>

record ('m, 'w) Macro =
  execute :: "'m \<Rightarrow> 'w \<Rightarrow> 'm \<times> 'w"
  isComplete :: "'m \<Rightarrow> bool"
  reset :: "'m \<Rightarrow> 'm"

text \<open>
  \<open>MovementMacro\<close>: a deferred action \<open>movement_func_\<close> and the flag \<open>complete_\<close>.
\<close>

record 'w MovementMacro =
  movement_func :: "'w \<Rightarrow> 'w"
  complete :: bool

definition MovementMacro_execute :: "'w MovementMacro \<Rightarrow> 'w \<Rightarrow> 'w MovementMacro \<times> 'w" where
  "MovementMacro_execute m w =
     (if \<not> complete m then (m\<lparr>complete := True\<rparr>, movement_func m w) else (m, w))"

definition MovementMacro_isComplete :: "'w MovementMacro \<Rightarrow> bool" where
  "MovementMacro_isComplete m = complete m"

definition MovementMacro_reset :: "'w MovementMacro \<Rightarrow> 'w MovementMacro" where
  "MovementMacro_reset m = m\<lparr>complete := False\<rparr>"

definition MovementMacro_class :: "('w MovementMacro, 'w) Macro" where
  "MovementMacro_class =
     \<lparr>execute = MovementMacro_execute,
      isComplete = MovementMacro_isComplete,
      reset = MovementMacro_reset\<rparr>"

text \<open>
  \<open>MacroSystem\<close>: the catalog \<open>macros_\<close> (an \<open>unordered_map\<close> from names to owned macro
  objects), the name of the active macro (the empty string when idle) and the enabled
  flag. The reference to the chassis is part of \<open>'w\<close>.
\<close>

record 'm MacroSystem =
  ms_name :: string
  ms_macros :: "string \<rightharpoonup> 'm"
  ms_active_macro :: string
  ms_enabled :: bool

definition MacroSystem_initialize :: "'m MacroSystem \<Rightarrow> 'm MacroSystem" where
  "MacroSystem_initialize s = s\<lparr>ms_enabled := True\<rparr>"

definition stopMacro :: "'m MacroSystem \<Rightarrow> 'm MacroSystem" where
  "stopMacro s = s\<lparr>ms_active_macro := []\<rparr>"

definition isMacroActive :: "'m MacroSystem \<Rightarrow> bool" where
  "isMacroActive s = (ms_active_macro s \<noteq> [])"

definition registerMacro :: "string \<Rightarrow> 'm \<Rightarrow> 'm MacroSystem \<Rightarrow> 'm MacroSystem" where
  "registerMacro name macro s = s\<lparr>ms_macros := (ms_macros s)(name \<mapsto> macro)\<rparr>"

definition startMacro :: "('m, 'w) Macro \<Rightarrow> string \<Rightarrow> 'm MacroSystem \<Rightarrow> bool \<times> 'm MacroSystem" where
  "startMacro M name s =
     (if \<not> ms_enabled s then (False, s)
      else case ms_macros s name of
        Some m \<Rightarrow>
          if ms_active_macro s = []
          then (True, s\<lparr>ms_active_macro := name, ms_macros := (ms_macros s)(name \<mapsto> reset M m)\<rparr>)
          else (False, s)
      | None \<Rightarrow> (False, s))"

definition MacroSystem_update :: "('m, 'w) Macro \<Rightarrow> 'm MacroSystem \<times> 'w \<Rightarrow> 'm MacroSystem \<times> 'w" where
  "MacroSystem_update M sw =
     (let s = fst sw; w = snd sw in
      if \<not> ms_enabled s \<or> ms_active_macro s = [] then (s, w)
      else case ms_macros s (ms_active_macro s) of
        Some m \<Rightarrow>
          (let (m', w') = execute M m w;
               s' = s\<lparr>ms_macros := (ms_macros s)(ms_active_macro s \<mapsto> m')\<rparr>
           in if isComplete M m' then (stopMacro s', w') else (s', w'))
      | None \<Rightarrow> (s, w))"

definition MacroSystem_disable :: "'m MacroSystem \<Rightarrow> 'm MacroSystem" where
  "MacroSystem_disable s = stopMacro (s\<lparr>ms_enabled := False\<rparr>)"

text \<open>
  The reading of the specification of \<open>start\<close>: it fails without any change when a macro
  is running or the name is unknown, and otherwise resets the macro and runs it.
\<close>

definition spec_start :: "('m, 'w) Macro \<Rightarrow> string \<Rightarrow> 'm MacroSystem \<Rightarrow> bool \<times> 'm MacroSystem" where
  "spec_start M name s =
     (if isMacroActive s \<or> name \<notin> dom (ms_macros s) then (False, s)
      else (True, s\<lparr>ms_active_macro := name,
                     ms_macros := (ms_macros s)(name \<mapsto> reset M (the (ms_macros s name)))\<rparr>))"

text \<open>A system with two movement macros \<open>A\<close> and \<open>B\<close>, used in the scenarios below.\<close>

definition noop_macro :: "unit MovementMacro" where
  "noop_macro = \<lparr>movement_func = (\<lambda>w. w), complete = False\<rparr>"

definition two_macros :: "unit MovementMacro MacroSystem" where
  "two_macros =
     registerMacro ''B'' noop_macro
       (registerMacro ''A'' noop_macro
          (MacroSystem_initialize
             \<lparr>ms_name = ''macros'', ms_macros = Map.empty, ms_active_macro = [], ms_enabled = False\<rparr>))"

section \<open>The controller (the PROS device the input layer polls)\<close>

text \<open>
  Modelled from the spec: the raw input device, \<open>pros::Controller\<close>, is a class of the
  PROS library and not of these sources. It exposes the axes of two analog sticks, each
  an integer between -127 and 127 (\<open>get_analog\<close>), and digital buttons that are queried
  in two modes: level, whether the button is held now (\<open>get_digital\<close>), and edge,
  whether it is newly pressed since the last poll (\<open>get_digital_new_press\<close>, which
  keeps per button whether the press has been reported already). The buttons are the
  enumerators of \<open>controller_digital_e_t\<close>, the axes those of \<open>controller_analog_e_t\<close>.
\<close>

type_synonym controller_digital_e_t = int

datatype controller_analog_e_t = ANALOG_LEFT_X | ANALOG_LEFT_Y | ANALOG_RIGHT_X | ANALOG_RIGHT_Y

record Controller =
  held :: "controller_digital_e_t \<Rightarrow> bool"
  reported :: "controller_digital_e_t \<Rightarrow> bool"
  stick :: "controller_analog_e_t \<Rightarrow> int"

definition get_digital :: "Controller \<Rightarrow> controller_digital_e_t \<Rightarrow> bool" where
  "get_digital c b = held c b"

definition get_digital_new_press :: "Controller \<Rightarrow> controller_digital_e_t \<Rightarrow> bool \<times> Controller" where
  "get_digital_new_press c b =
     (if \<not> held c b then (False, c\<lparr>reported := (reported c)(b := False)\<rparr>)
      else if reported c b then (False, c)
      else (True, c\<lparr>reported := (reported c)(b := True)\<rparr>))"

definition get_analog :: "Controller \<Rightarrow> controller_analog_e_t \<Rightarrow> int" where
  "get_analog c a = stick c a"

text \<open>\<open>std::to_string\<close> on an \<open>int\<close>: the decimal digits, with a sign when negative.\<close>

fun to_string_nat :: "nat \<Rightarrow> string" where
  "to_string_nat n =
     (if n < 10 then [''0123456789'' ! n]
      else to_string_nat (n div 10) @ [''0123456789'' ! (n mod 10)])"

declare to_string_nat.simps [simp del]

definition to_string :: "int \<Rightarrow> string" where
  "to_string i = (if i < 0 then CHR ''-'' # to_string_nat (nat (- i)) else to_string_nat (nat i))"

section \<open>Input bindings and the input mapper\<close>

datatype InputType = BUTTON | BUTTON_COMBO | ANALOG_ABOVE | ANALOG_BELOW | SEQUENCE

text \<open>
  \<open>sequence_window\<close> is a \<open>std::chrono::milliseconds\<close>, a signed 64-bit count of
  milliseconds; the time points and durations of the steady clock are signed 64-bit
  counts of nanoseconds.
\<close>

record InputBinding =
  type :: InputType
  buttons :: "controller_digital_e_t list"
  analog :: controller_analog_e_t
  threshold :: real
  sequence_window :: int

type_synonym time_point = int

type_synonym input_history = "(time_point \<times> string) list"

text \<open>
  Arithmetic on the 64-bit counts wraps around: \<open>wrap64\<close> is the value a signed 64-bit
  integer takes for the mathematical result \<open>i\<close>.
\<close>

definition wrap64 :: "int \<Rightarrow> int" where
  "wrap64 i = (i + 2 ^ 63) mod 2 ^ 64 - 2 ^ 63"

text \<open>
  The three loops of the \<open>SEQUENCE\<close> case of \<open>checkBinding\<close>. In the first, the
  comparison \<open>now - entry.first > binding.sequence_window\<close> is made in nanoseconds: the
  difference of the time points is a 64-bit count of nanoseconds, and the window is
  converted to one by multiplying its count by 1000000.
\<close>

definition clean_old_inputs :: "time_point \<Rightarrow> InputBinding \<Rightarrow> input_history \<Rightarrow> input_history" where
  "clean_old_inputs now binding h =
     filter (\<lambda>entry. \<not> (wrap64 (now - fst entry) > wrap64 (sequence_window binding * 1000000))) h"

text \<open>
  What the specification calls the events within the sliding window, in exact
  arithmetic: the entries recorded at most \<open>sequence_window\<close> milliseconds before \<open>now\<close>.
\<close>

definition spec_within_window :: "time_point \<Rightarrow> InputBinding \<Rightarrow> input_history \<Rightarrow> input_history" where
  "spec_within_window now binding h =
     filter (\<lambda>entry. now - fst entry \<le> sequence_window binding * 1000000) h"

fun sequence_matches :: "Controller \<Rightarrow> controller_digital_e_t list \<Rightarrow> bool" where
  "sequence_matches c [] = True"
| "sequence_matches c (b # bs) =
     (if get_digital c b \<noteq> get_digital c b then False else sequence_matches c bs)"

fun record_new_input ::
  "time_point \<Rightarrow> controller_digital_e_t list \<Rightarrow> Controller \<times> input_history \<Rightarrow> Controller \<times> input_history" where
  "record_new_input now [] (c, h) = (c, h)"
| "record_new_input now (btn # bs) (c, h) =
     (case get_digital_new_press c btn of
        (True, c') \<Rightarrow> (c', h @ [(now, to_string btn)])
      | (False, c') \<Rightarrow> record_new_input now bs (c', h))"

text \<open>
  \<open>checkBinding\<close> reads the controller and, for a sequence, the clock (\<open>now\<close>) and the
  recorded history \<open>input_history_\<close>; it returns its verdict with the controller and the
  history as it leaves them.
\<close>

definition checkBinding ::
  "InputBinding \<Rightarrow> time_point \<Rightarrow> Controller \<times> input_history \<Rightarrow> bool \<times> Controller \<times> input_history" where
  "checkBinding binding now ch =
     (let c = fst ch; h = snd ch in
      case type binding of
        BUTTON \<Rightarrow>
          (case buttons binding of
             [] \<Rightarrow> (False, c, h)
           | b # _ \<Rightarrow> (let (r, c') = get_digital_new_press c b in (r, c', h)))
      | BUTTON_COMBO \<Rightarrow> (list_all (get_digital c) (buttons binding), c, h)
      | ANALOG_ABOVE \<Rightarrow> (real_of_int (get_analog c (analog binding)) / 127 > threshold binding, c, h)
      | ANALOG_BELOW \<Rightarrow> (real_of_int (get_analog c (analog binding)) / 127 < threshold binding, c, h)
      | SEQUENCE \<Rightarrow>
          (let h1 = clean_old_inputs now binding h in
           if length h1 = length (buttons binding) \<and> sequence_matches c (buttons binding)
           then (True, c, [])
           else (False, record_new_input now (buttons binding) (c, h1))))"

text \<open>
  \<open>InputMapper\<close>. The bindings are kept in the order in which \<open>update\<close> visits them (the
  iteration order of the \<open>unordered_map\<close>); the bound actions are closures acting on the
  rest of the program, \<open>'v\<close>.
\<close>

record 'v InputMapper =
  im_name :: string
  im_bindings :: "(string \<times> InputBinding) list"
  im_actions :: "string \<rightharpoonup> ('v \<Rightarrow> 'v)"
  im_input_history :: input_history
  im_enabled :: bool


definition InputMapper_disable :: "'v InputMapper \<Rightarrow> 'v InputMapper" where
  "InputMapper_disable im = im\<lparr>im_enabled := False\<rparr>"


definition removeBinding :: "string \<Rightarrow> 'v InputMapper \<Rightarrow> 'v InputMapper" where
  "removeBinding name im =
     im\<lparr>im_bindings := AList.delete name (im_bindings im),
        im_actions := (im_actions im)(name := None)\<rparr>"



section \<open>Enhanced driver control: the arbiter between macros and operator input\<close>

text \<open>
  \<open>EnhancedDriverControl\<close> holds references to a macro system and an input mapper. They
  are kept with the controller and the rest of the program in one record, on which
  \<open>update\<close> works. The bound actions of the input mapper act on the macro system and the
  rest of the program; the macros act on the rest of the program.
\<close>

record ('m, 'w) EnhancedDriverControl =
  edc_name :: string
  edc_enabled :: bool
  macro_system :: "'m MacroSystem"
  input_mapper :: "('m MacroSystem \<times> 'w) InputMapper"
  controller :: Controller
  world :: 'w



definition EnhancedDriverControl_disable ::
  "('m, 'w) EnhancedDriverControl \<Rightarrow> ('m, 'w) EnhancedDriverControl" where
  "EnhancedDriverControl_disable e =
     e\<lparr>edc_enabled := False, macro_system := MacroSystem_disable (macro_system e)\<rparr>"





text \<open>
  Sample inputs. Button codes are those of the enumeration: B is 15, A is 17.
  \<open>seq_AB\<close> expects A then B within 500 ms, and \<open>seq_huge\<close> the same within
  9223372036855 ms. \<open>presses_AA\<close> is the history of two presses of A, at 200 ms and
  300 ms, \<open>presses_BA\<close> that of B then A at the same times, and \<open>presses_AAA\<close> that of
  three presses of A, at 50 ms, 200 ms and 300 ms. \<open>A_down\<close> and \<open>A_up\<close> press and release
  the button A; \<open>frozen_clock\<close> reads 0 at every call. \<open>always_chord\<close> is a chord of no buttons, which fires on every tick. In
  \<open>idle_arbiter\<close> no macro is running, and the chord is bound to an action that starts
  the macro \<open>A\<close> of \<open>two_macros\<close>; in \<open>busy_arbiter\<close> the macro \<open>A\<close> has been started, and
  the chord is bound to an action that stops the running macro.
\<close>

definition seq_AB :: InputBinding where
  "seq_AB = \<lparr>type = SEQUENCE, buttons = [17, 15], analog = ANALOG_LEFT_Y, threshold = 0,
            sequence_window = 500\<rparr>"

definition seq_huge :: InputBinding where
  "seq_huge = \<lparr>type = SEQUENCE, buttons = [17, 15], analog = ANALOG_LEFT_Y, threshold = 0,
              sequence_window = 9223372036855\<rparr>"

definition presses_AA :: input_history where
  "presses_AA = [(200000000, ''17''), (300000000, ''17'')]"

definition presses_BA :: input_history where
  "presses_BA = [(200000000, ''15''), (300000000, ''17'')]"

definition presses_AAA :: input_history where
  "presses_AAA = [(50000000, ''17''), (200000000, ''17''), (300000000, ''17'')]"

definition A_down :: "Controller \<Rightarrow> Controller" where
  "A_down c = c\<lparr>held := (held c)(17 := True)\<rparr>"

definition A_up :: "Controller \<Rightarrow> Controller" where
  "A_up c = c\<lparr>held := (held c)(17 := False)\<rparr>"


definition idle_controller :: Controller where
  "idle_controller = \<lparr>held = (\<lambda>b. False), reported = (\<lambda>b. False), stick = (\<lambda>a. 0)\<rparr>"




section \<open>The subsystem registry (core header)\<close>

text \<open>
  The template parameters of the chassis classes: the drive type and the odometry
  strategy. A \<open>ChassisConfig\<close> is a pair of them.
\<close>

datatype DriveType = TANK | HOLONOMIC | MECANUM

datatype OdomType = NONE | TRACKING | INTEGRATED | IMU_ENHANCED

record ChassisConfig =
  driveType :: DriveType
  odomType :: OdomType

text \<open>
  The registry keys its type cache by \<open>std::type_index (typeid (T))\<close>. The classes of the
  program that implement \<open>ISubsystem\<close>, each template instance a class of its own:
\<close>

datatype class_id =
    ISubsystem_class
  | Subsystem_ClampConfig_class
  | Clamp_class
  | Chassis_class ChassisConfig
  | TankChassis_class ChassisConfig
  | DriverControl_class ChassisConfig
  | InputMapper_class ChassisConfig
  | MacroSystem_class ChassisConfig
  | EnhancedDriverControl_class ChassisConfig

text \<open>\<open>derives D T\<close>: an object of class \<open>D\<close> is also a \<open>T\<close> (what a dynamic cast to \<open>T\<close> accepts).\<close>

fun derives :: "class_id \<Rightarrow> class_id \<Rightarrow> bool" where
  "derives D ISubsystem_class = True"
| "derives Clamp_class Subsystem_ClampConfig_class = True"
| "derives (TankChassis_class c) (Chassis_class c') = (c = c')"
| "derives D T = (D = T)"

text \<open>
  Subsystems live on the heap and are held through shared pointers (addresses). What the
  registry uses of a subsystem is its class, its name and its enabled flag.
\<close>

type_synonym addr = nat

record subsystem_object =
  obj_class :: class_id
  obj_name :: string
  obj_enabled :: bool

type_synonym heap = "addr \<rightharpoonup> subsystem_object"

text \<open>
  \<open>type_cache_\<close> holds \<open>std::any\<close> values; the one stored by \<open>registerSubsystem<T>\<close> is a
  \<open>shared_ptr<T>\<close>: the pointer with its static type.
\<close>

record SubsystemRegistry =
  subsystems :: "string \<rightharpoonup> addr"
  type_cache :: "class_id \<rightharpoonup> class_id \<times> addr"

datatype error = null_dereference | bad_any_cast

definition empty_registry :: SubsystemRegistry where
  "empty_registry = \<lparr>subsystems = Map.empty, type_cache = Map.empty\<rparr>"

definition registerSubsystem ::
  "class_id \<Rightarrow> addr \<Rightarrow> heap \<times> SubsystemRegistry \<Rightarrow> error + heap \<times> SubsystemRegistry" where
  "registerSubsystem T p hr =
     (case fst hr p of
        None \<Rightarrow> Inl null_dereference
      | Some obj \<Rightarrow>
          Inr ((fst hr)(p \<mapsto> obj\<lparr>obj_enabled := True\<rparr>),
               (snd hr)\<lparr>subsystems := (subsystems (snd hr))(obj_name obj \<mapsto> p),
                        type_cache := (type_cache (snd hr))(T \<mapsto> (T, p))\<rparr>))"

definition dynamic_pointer_cast :: "class_id \<Rightarrow> heap \<Rightarrow> addr \<Rightarrow> addr option" where
  "dynamic_pointer_cast T h p =
     (case h p of
        Some obj \<Rightarrow> if derives (obj_class obj) T then Some p else None
      | None \<Rightarrow> None)"

definition getSubsystem :: "class_id \<Rightarrow> string \<Rightarrow> heap \<times> SubsystemRegistry \<Rightarrow> addr option" where
  "getSubsystem T name hr =
     (case subsystems (snd hr) name of
        Some p \<Rightarrow> dynamic_pointer_cast T (fst hr) p
      | None \<Rightarrow> None)"

definition getSubsystemByType :: "class_id \<Rightarrow> SubsystemRegistry \<Rightarrow> error + addr option" where
  "getSubsystemByType T r =
     (case type_cache r T of
        Some (T', p) \<Rightarrow> if T' = T then Inr (Some p) else Inl bad_any_cast
      | None \<Rightarrow> Inr None)"

text \<open>
  Sample heap: two chassis objects, both named \<open>chassis\<close>, the first a tank chassis with
  orientation-enhanced odometry, the second one with tracking wheels.
\<close>

definition imu_config :: ChassisConfig where
  "imu_config = \<lparr>driveType = TANK, odomType = IMU_ENHANCED\<rparr>"

definition tracking_config :: ChassisConfig where
  "tracking_config = \<lparr>driveType = TANK, odomType = TRACKING\<rparr>"

definition two_chassis :: heap where
  "two_chassis =
     [1 \<mapsto> \<lparr>obj_class = TankChassis_class imu_config, obj_name = ''chassis'', obj_enabled = False\<rparr>,
      2 \<mapsto> \<lparr>obj_class = TankChassis_class tracking_config, obj_name = ''chassis'', obj_enabled = False\<rparr>]"

section \<open>The event system (core header)\<close>

text \<open>
  A payload is a \<open>std::any\<close>: a value with the type it was built from. The payload types
  used by the program are listed; \<open>any_cast\<close> to \<open>T\<close> succeeds on exactly the values
  built from a \<open>T\<close>.
\<close>

datatype any = any_bool bool | any_int int | any_double real | any_string string

datatype payload_type = T_bool | T_int | T_double | T_string

fun type_of :: "any \<Rightarrow> payload_type" where
  "type_of (any_bool b) = T_bool"
| "type_of (any_int i) = T_int"
| "type_of (any_double d) = T_double"
| "type_of (any_string s) = T_string"

definition any_cast :: "payload_type \<Rightarrow> any \<Rightarrow> any option" where
  "any_cast T data = (if type_of data = T then Some data else None)"

text \<open>
  A handler acts on the rest of the program, \<open>'w\<close>. \<open>handlers_\<close> maps a topic to the
  handlers subscribed to it, in the order of subscription; \<open>subscribe<T>\<close> stores the
  handler wrapped in the closure that casts the payload first.
\<close>

type_synonym 'w handler = "any \<Rightarrow> 'w \<Rightarrow> 'w"

type_synonym 'w EventSystem = "string \<rightharpoonup> 'w handler list"

definition subscribe :: "payload_type \<Rightarrow> string \<Rightarrow> 'w handler \<Rightarrow> 'w EventSystem \<Rightarrow> 'w EventSystem" where
  "subscribe T event_type handler handlers =
     handlers(event_type \<mapsto>
       (case handlers event_type of None \<Rightarrow> [] | Some hs \<Rightarrow> hs)
       @ [\<lambda>data w. case any_cast T data of Some typed_data \<Rightarrow> handler typed_data w | None \<Rightarrow> w])"

definition emit :: "string \<Rightarrow> any \<Rightarrow> 'w EventSystem \<Rightarrow> 'w \<Rightarrow> 'w" where
  "emit event_type data handlers w =
     (case handlers event_type of
        Some hs \<Rightarrow> fold (\<lambda>handler. handler data) hs w
      | None \<Rightarrow> w)"

text \<open>
  A list of subscriptions made one after the other, and what the specification expects
  of an emit after them: the handlers of that topic subscribed for the payload's type
  run, in the order of subscription.
\<close>

fun subscribe_all :: "(payload_type \<times> string \<times> 'w handler) list \<Rightarrow> 'w EventSystem \<Rightarrow> 'w EventSystem" where
  "subscribe_all [] handlers = handlers"
| "subscribe_all ((T, event_type, handler) # rest) handlers =
     subscribe_all rest (subscribe T event_type handler handlers)"

definition spec_emit :: "(payload_type \<times> string \<times> 'w handler) list \<Rightarrow> string \<Rightarrow> any \<Rightarrow> 'w \<Rightarrow> 'w" where
  "spec_emit subs event_type data w =
     fold (\<lambda>(T, topic, handler) w. handler data w)
       (filter (\<lambda>(T, topic, handler). topic = event_type \<and> T = type_of data) subs) w"

text \<open>
  Sample handlers on a log of strings: one subscribed for \<open>bool\<close>, one for \<open>int\<close>.
\<close>

definition log_handlers :: "(payload_type \<times> string \<times> string list handler) list" where
  "log_handlers =
     [(T_bool, ''clamp_state_changed'', \<lambda>data log. log @ [''bool handler'']),
      (T_int, ''clamp_state_changed'', \<lambda>data log. log @ [''int handler''])]"

section \<open>The chassis (movement/chassis and movement/tank chassis headers)\<close>

text \<open>
  Values of type \<open>double\<close> are modelled as real numbers. \<open>field::Point\<close> and \<open>Position\<close>:
\<close>

record Point =
  pt_x :: real
  pt_y :: real

record Position =
  pos_x :: real
  pos_y :: real
  heading :: real

text \<open>
  \<open>std::atan2\<close>, a function of the C library: the angle of the point \<open>(x, y)\<close>, between
  \<open>-pi\<close> and \<open>pi\<close>.
\<close>

definition atan2 :: "real \<Rightarrow> real \<Rightarrow> real" where
  "atan2 y x =
     (if 0 < x then arctan (y / x)
      else if x < 0 then (if 0 \<le> y then arctan (y / x) + pi else arctan (y / x) - pi)
      else if 0 < y then pi / 2
      else if y < 0 then - (pi / 2)
      else 0)"

definition distanceTo :: "Position \<Rightarrow> Point \<Rightarrow> real" where
  "distanceTo p target =
     (let dx = pt_x target - pos_x p; dy = pt_y target - pos_y p in sqrt (dx * dx + dy * dy))"

definition angleTo :: "Position \<Rightarrow> Point \<Rightarrow> real" where
  "angleTo p target = atan2 (pt_y target - pos_y p) (pt_x target - pos_x p)"

text \<open>
  Modelled from the spec: the actuator handle, \<open>pros::Motor\<close>, is a class of the PROS
  library. It accepts a signed target velocity (\<open>move_velocity\<close>) and has a reversed
  polarity flag set at registration; the record keeps the last target velocity given.
\<close>

record Motor =
  port :: int
  reversed :: bool
  velocity :: real

definition move_velocity :: "Motor \<Rightarrow> real \<Rightarrow> Motor" where
  "move_velocity m v = m\<lparr>velocity := v\<rparr>"

text \<open>
  The sensor handles \<open>imu_\<close>, \<open>left_encoder_\<close> and \<open>right_encoder_\<close> of the chassis are null
  (\<open>None\<close>) or hold the port of the device. The template parameter \<open>Config\<close> is the field
  \<open>config\<close>.
\<close>

record Chassis =
  config :: ChassisConfig
  ch_name :: string
  current_pos :: Position
  motors :: "Motor list"
  imu :: "int option"
  left_encoder :: "int option"
  right_encoder :: "int option"
  ch_enabled :: bool

text \<open>
  Modelled from the spec: the orientation sensor (\<open>pros::IMU\<close>, of the PROS library)
  exposes its absolute heading in degrees, which the chassis converts to radians; the
  two rotation sensors expose their positions. What the devices read at one moment:
\<close>

record Sensors =
  imu_heading :: real
  left_position :: real
  right_position :: real

definition Chassis_new :: "ChassisConfig \<Rightarrow> string \<Rightarrow> Chassis" where
  "Chassis_new cfg name =
     \<lparr>config = cfg, ch_name = name, current_pos = \<lparr>pos_x = 0, pos_y = 0, heading = 0\<rparr>,
      motors = [], imu = None, left_encoder = None, right_encoder = None, ch_enabled = False\<rparr>"

definition Chassis_initialize :: "Chassis \<Rightarrow> Chassis" where
  "Chassis_initialize ch = ch\<lparr>ch_enabled := True\<rparr>"

definition addMotor :: "int \<Rightarrow> bool \<Rightarrow> Chassis \<Rightarrow> Chassis" where
  "addMotor p is_reversed ch =
     (if length (motors ch) < 10
      then ch\<lparr>motors := motors ch @ [\<lparr>port = p, reversed = is_reversed, velocity = 0\<rparr>]\<rparr>
      else ch)"

definition setMotorVelocity :: "int \<Rightarrow> real \<Rightarrow> Chassis \<Rightarrow> Chassis" where
  "setMotorVelocity index v ch =
     (if 0 \<le> index \<and> index < int (length (motors ch))
      then ch\<lparr>motors := (motors ch)[nat index := move_velocity (motors ch ! nat index) v]\<rparr>
      else ch)"

definition stop :: "Chassis \<Rightarrow> Chassis" where
  "stop ch = ch\<lparr>motors := map (\<lambda>motor. move_velocity motor 0) (motors ch)\<rparr>"

definition Chassis_disable :: "Chassis \<Rightarrow> Chassis" where
  "Chassis_disable ch = stop (ch\<lparr>ch_enabled := False\<rparr>)"

definition getMotorCount :: "Chassis \<Rightarrow> nat" where
  "getMotorCount ch = length (motors ch)"

text \<open>
  \<open>initializeSensors\<close> of the tank chassis (the calibration delay is not modelled).
\<close>

definition initializeSensors :: "int \<Rightarrow> int \<Rightarrow> int \<Rightarrow> Chassis \<Rightarrow> Chassis" where
  "initializeSensors imu_port left_enc_port right_enc_port ch =
     (let ch1 = (if odomType (config ch) = IMU_ENHANCED \<or> odomType (config ch) = TRACKING
                 then ch\<lparr>imu := Some imu_port\<rparr> else ch);
          ch2 = (if odomType (config ch) = TRACKING \<and> left_enc_port \<noteq> - 1
                 then ch1\<lparr>left_encoder := Some left_enc_port\<rparr> else ch1)
      in if odomType (config ch) = TRACKING \<and> right_enc_port \<noteq> - 1
         then ch2\<lparr>right_encoder := Some right_enc_port\<rparr> else ch2)"

text \<open>
  \<open>getPosition\<close> of the tank chassis. It is declared \<open>const\<close>, but \<open>current_pos_\<close> is
  \<open>mutable\<close> and the tracking strategy writes it: the chassis is returned beside the
  position.
\<close>

definition getPosition :: "Sensors \<Rightarrow> Chassis \<Rightarrow> Position \<times> Chassis" where
  "getPosition s ch =
     (if odomType (config ch) = IMU_ENHANCED then
        (if imu ch \<noteq> None
         then (\<lparr>pos_x = pos_x (current_pos ch), pos_y = pos_y (current_pos ch),
                heading = imu_heading s * pi / 180\<rparr>, ch)
         else (current_pos ch, ch))
      else if odomType (config ch) = TRACKING then
        (if imu ch \<noteq> None \<and> left_encoder ch \<noteq> None \<and> right_encoder ch \<noteq> None
         then
           (let left_dist = left_position s / 360 * (2.75 * pi);
                right_dist = right_position s / 360 * (2.75 * pi);
                h = imu_heading s * pi / 180;
                distance = (left_dist + right_dist) / 2;
                new_pos = \<lparr>pos_x = pos_x (current_pos ch) + distance * cos h,
                           pos_y = pos_y (current_pos ch) + distance * sin h,
                           heading = h\<rparr>
            in (new_pos, ch\<lparr>current_pos := new_pos\<rparr>))
         else (current_pos ch, ch))
      else (current_pos ch, ch))"

text \<open>
  The two loops that normalise an angle error, \<open>while (e > M_PI) e -= 2*M_PI\<close> and
  \<open>while (e < -M_PI) e += 2*M_PI\<close>. On the reals both terminate.
\<close>

function subtract_turns :: "real \<Rightarrow> real" where
  "subtract_turns e = (if e > pi then subtract_turns (e - 2 * pi) else e)"
  by pat_completeness auto
termination
proof (relation "measure (\<lambda>e. nat \<lceil>(e - pi) / (2 * pi)\<rceil>)")
  show "wf (measure (\<lambda>e. nat \<lceil>(e - pi) / (2 * pi)\<rceil>))"
    by simp
next
  fix e :: real
  assume h: "pi < e"
  have eq: "(e - 2 * pi - pi) / (2 * pi) = (e - pi) / (2 * pi) - 1"
    by (simp add: field_simps)
  have "0 < (e - pi) / (2 * pi)"
    using h by simp
  then have pos: "0 < \<lceil>(e - pi) / (2 * pi)\<rceil>"
    by (simp add: ceiling_less_iff)
  have "\<lceil>(e - 2 * pi - pi) / (2 * pi)\<rceil> = \<lceil>(e - pi) / (2 * pi)\<rceil> - 1"
    unfolding eq by (rule ceiling_diff_one)
  with pos have "nat \<lceil>(e - 2 * pi - pi) / (2 * pi)\<rceil> < nat \<lceil>(e - pi) / (2 * pi)\<rceil>"
    by linarith
  then show "(e - 2 * pi, e) \<in> measure (\<lambda>e. nat \<lceil>(e - pi) / (2 * pi)\<rceil>)"
    unfolding in_measure .
qed

function add_turns :: "real \<Rightarrow> real" where
  "add_turns e = (if e < - pi then add_turns (e + 2 * pi) else e)"
  by pat_completeness auto
termination
proof (relation "measure (\<lambda>e. nat \<lceil>(- pi - e) / (2 * pi)\<rceil>)")
  show "wf (measure (\<lambda>e. nat \<lceil>(- pi - e) / (2 * pi)\<rceil>))"
    by simp
next
  fix e :: real
  assume h: "e < - pi"
  have eq: "(- pi - (e + 2 * pi)) / (2 * pi) = (- pi - e) / (2 * pi) - 1"
    by (simp add: field_simps)
  have "0 < (- pi - e) / (2 * pi)"
    using h by simp
  then have pos: "0 < \<lceil>(- pi - e) / (2 * pi)\<rceil>"
    by (simp add: ceiling_less_iff)
  have "\<lceil>(- pi - (e + 2 * pi)) / (2 * pi)\<rceil> = \<lceil>(- pi - e) / (2 * pi)\<rceil> - 1"
    unfolding eq by (rule ceiling_diff_one)
  with pos have "nat \<lceil>(- pi - (e + 2 * pi)) / (2 * pi)\<rceil> < nat \<lceil>(- pi - e) / (2 * pi)\<rceil>"
    by linarith
  then show "(e + 2 * pi, e) \<in> measure (\<lambda>e. nat \<lceil>(- pi - e) / (2 * pi)\<rceil>)"
    unfolding in_measure .
qed

declare subtract_turns.simps [simp del] add_turns.simps [simp del]

definition normalize_angle :: "real \<Rightarrow> real" where
  "normalize_angle e = add_turns (subtract_turns e)"

text \<open>The angle error of \<open>moveTo\<close> and that of \<open>turnTo\<close>, normalised.\<close>

definition moveTo_angle_error :: "Position \<Rightarrow> Point \<Rightarrow> bool \<Rightarrow> real" where
  "moveTo_angle_error current target reverse =
     normalize_angle (angleTo current target - heading current + (if reverse then pi else 0))"

definition turnTo_error :: "real \<Rightarrow> real \<Rightarrow> real" where
  "turnTo_error angle current = normalize_angle (angle - current)"

text \<open>
  The loop over the motors of \<open>moveTo\<close> and \<open>turnTo\<close>: motor \<open>i\<close> is given the velocity
  \<open>v i\<close>.
\<close>

function for_each_motor :: "(nat \<Rightarrow> real) \<Rightarrow> nat \<Rightarrow> Motor list \<Rightarrow> Motor list" where
  "for_each_motor v i ms =
     (if i < length ms then for_each_motor v (Suc i) (ms[i := move_velocity (ms ! i) (v i)]) else ms)"
  by pat_completeness auto
termination
  by (relation "measure (\<lambda>(v, i, ms). length ms - i)") auto

declare for_each_motor.simps [simp del]

definition kP :: real where "kP = 0.8"

definition kTurnP :: real where "kTurnP = 1.2"

text \<open>
  While \<open>moveTo\<close> sleeps, the sensors move on and other tasks may run: iteration \<open>i\<close> of
  the loop reads \<open>readings i\<close>, and during its delay the chassis is changed by
  \<open>during_delay i\<close> (for instance by a call of \<open>disable\<close>).
\<close>

record Environment =
  readings :: "nat \<Rightarrow> Sensors"
  during_delay :: "nat \<Rightarrow> Chassis \<Rightarrow> Chassis"

text \<open>
  The loop of \<open>moveTo\<close>. It has no bound on its iterations; where it runs forever the
  value is \<open>None\<close>.
\<close>

partial_function (option) moveTo_loop ::
  "Environment \<Rightarrow> Point \<Rightarrow> bool \<Rightarrow> nat \<Rightarrow> Chassis \<Rightarrow> Chassis option" where
  "moveTo_loop env target reverse i ch =
     (if \<not> ch_enabled ch then Some ch
      else
        (let current = fst (getPosition (readings env i) ch);
             ch1 = snd (getPosition (readings env i) ch);
             distance = distanceTo current target
         in if distance < 1 then Some ch1
            else
              (let angle_error = moveTo_angle_error current target reverse;
                   turn_power = kTurnP * angle_error;
                   drive_power = kP * distance;
                   n = length (motors ch1);
                   ch2 = ch1\<lparr>motors :=
                           for_each_motor
                             (\<lambda>j. (drive_power + (if j < n div 2 then turn_power else - turn_power)) * 200)
                             0 (motors ch1)\<rparr>
               in moveTo_loop env target reverse (Suc i) (during_delay env i ch2))))"

definition moveTo :: "Environment \<Rightarrow> Point \<Rightarrow> bool \<Rightarrow> Chassis \<Rightarrow> Chassis option" where
  "moveTo env target reverse ch =
     (if \<not> ch_enabled ch then Some ch
      else map_option stop (moveTo_loop env target reverse 0 ch))"

partial_function (option) turnTo_loop ::
  "Environment \<Rightarrow> real \<Rightarrow> nat \<Rightarrow> Chassis \<Rightarrow> Chassis option" where
  "turnTo_loop env angle i ch =
     (if \<not> ch_enabled ch then Some ch
      else
        (let current = heading (fst (getPosition (readings env i) ch));
             ch1 = snd (getPosition (readings env i) ch);
             err = turnTo_error angle current
         in if \<bar>err\<bar> < 0.05 then Some ch1
            else
              (let power = kTurnP * err;
                   n = length (motors ch1);
                   ch2 = ch1\<lparr>motors :=
                           for_each_motor (\<lambda>j. (if j < n div 2 then power else - power) * 200)
                             0 (motors ch1)\<rparr>
               in turnTo_loop env angle (Suc i) (during_delay env i ch2))))"

definition turnTo :: "Environment \<Rightarrow> real \<Rightarrow> Chassis \<Rightarrow> Chassis option" where
  "turnTo env angle ch =
     (if \<not> ch_enabled ch then Some ch
      else map_option stop (turnTo_loop env angle 0 ch))"

text \<open>
  Sample chassis and environments. \<open>demo_chassis\<close> is a tank chassis with
  orientation-enhanced odometry and two motors, initialised, with its sensors;
  \<open>coasting_chassis\<close> is the same chassis before \<open>initialize\<close> and \<open>initializeSensors\<close>, its
  first motor commanded to velocity 100. In \<open>still_env\<close> the inertial sensor reads 90
  degrees and nothing interferes; in \<open>disabling_env\<close> the chassis is disabled during the
  first delay.
\<close>

definition coasting_chassis :: Chassis where
  "coasting_chassis =
     setMotorVelocity 0 100 (addMotor 2 True (addMotor 1 False (Chassis_new imu_config ''chassis'')))"

definition demo_chassis :: Chassis where
  "demo_chassis =
     Chassis_initialize (initializeSensors 9 (- 1) (- 1)
       (addMotor 2 True (addMotor 1 False (Chassis_new imu_config ''chassis''))))"

definition still_env :: Environment where
  "still_env =
     \<lparr>readings = (\<lambda>i. \<lparr>imu_heading = 90, left_position = 0, right_position = 0\<rparr>),
      during_delay = (\<lambda>i ch. ch)\<rparr>"

definition disabling_env :: Environment where
  "disabling_env =
     \<lparr>readings = (\<lambda>i. \<lparr>imu_heading = 90, left_position = 0, right_position = 0\<rparr>),
      during_delay = (\<lambda>i ch. if i = 0 then Chassis_disable ch else ch)\<rparr>"

text \<open>
  The polynomial of degree 10 that approximates the cosine, used to bound \<open>pi\<close>.
\<close>

definition cos_poly :: "real \<Rightarrow> real" where
  "cos_poly x = 1 - x^2 / 2 + x^4 / 24 - x^6 / 720 + x^8 / 40320 - x^10 / 3628800"

section \<open>Driver control (movement/driver control header)\<close>

text \<open>
  The constructor \<open>TANK\<close> below is that of \<open>DriveMode\<close>; the drive type of the same name
  is \<open>DriveType.TANK\<close> from here on.
\<close>

datatype DriveMode = ARCADE | SPLIT | TANK

record DriverConfig =
  mode :: DriveMode
  curve_factor :: real
  deadzone :: real
  turn_scale :: real
  controller_id :: int

definition DriverConfig_default :: DriverConfig where
  "DriverConfig_default =
     \<lparr>mode = ARCADE, curve_factor = 1.5, deadzone = 0.05, turn_scale = 0.8, controller_id = 0\<rparr>"

text \<open>
  \<open>DriverControl\<close> holds its configuration and its enabled flag; the chassis it refers to
  and its controller are passed to the functions below.
\<close>

record DriverControl =
  dc_name :: string
  dc_config :: DriverConfig
  dc_enabled :: bool

text \<open>
  \<open>std::pow\<close> on a base that is not negative. (For the base 0 and a negative exponent the
  library returns infinity; the value here is then 0.)
\<close>

definition std_pow :: "real \<Rightarrow> real \<Rightarrow> real" where
  "std_pow b e = (if e = 0 then 1 else b powr e)"

definition applyDeadzone :: "DriverConfig \<Rightarrow> real \<Rightarrow> real" where
  "applyDeadzone cfg input = (if \<bar>input\<bar> < deadzone cfg then 0 else input)"

definition applyCurve :: "DriverConfig \<Rightarrow> real \<Rightarrow> real" where
  "applyCurve cfg input = std_pow \<bar>input\<bar> (curve_factor cfg) * (if input < 0 then - 1 else 1)"

text \<open>
  The loop that ends \<open>processTankDrive\<close> and \<open>processArcadeDrive\<close>: the motors of the
  first half get \<open>left * 200\<close>, the others \<open>right * 200\<close>.
\<close>

function apply_to_motors :: "real \<Rightarrow> real \<Rightarrow> nat \<Rightarrow> Chassis \<Rightarrow> Chassis" where
  "apply_to_motors left right i ch =
     (if i < getMotorCount ch
      then apply_to_motors left right (Suc i)
             (setMotorVelocity (int i) ((if i < getMotorCount ch div 2 then left else right) * 200) ch)
      else ch)"
  by pat_completeness auto
termination
  by (relation "measure (\<lambda>(left, right, i, ch). getMotorCount ch - i)")
     (auto simp: getMotorCount_def setMotorVelocity_def)

declare apply_to_motors.simps [simp del]

definition processTankDrive :: "DriverControl \<Rightarrow> Controller \<Rightarrow> Chassis \<Rightarrow> Chassis" where
  "processTankDrive dc c ch =
     (if \<not> dc_enabled dc then ch
      else
        (let left = applyDeadzone (dc_config dc) (real_of_int (get_analog c ANALOG_LEFT_Y) / 127);
             right = applyDeadzone (dc_config dc) (real_of_int (get_analog c ANALOG_RIGHT_Y) / 127)
         in apply_to_motors (applyCurve (dc_config dc) left) (applyCurve (dc_config dc) right) 0 ch))"

text \<open>
  The middle of \<open>processArcadeDrive\<close>: the two sums, and their normalisation when one
  exceeds 1 in absolute value.
\<close>

definition arcade_sums :: "real \<Rightarrow> real \<Rightarrow> real \<times> real" where
  "arcade_sums drive turn = (drive + turn, drive - turn)"

definition arcade_normalize :: "real \<times> real \<Rightarrow> real \<times> real" where
  "arcade_normalize lr =
     (let left = fst lr; right = snd lr; mx = max \<bar>left\<bar> \<bar>right\<bar>
      in if mx > 1 then (left / mx, right / mx) else (left, right))"

definition processArcadeDrive :: "bool \<Rightarrow> DriverControl \<Rightarrow> Controller \<Rightarrow> Chassis \<Rightarrow> Chassis" where
  "processArcadeDrive split dc c ch =
     (if \<not> dc_enabled dc then ch
      else
        (let drive0 = applyDeadzone (dc_config dc) (real_of_int (get_analog c ANALOG_LEFT_Y) / 127);
             turn0 = (if split
                      then applyDeadzone (dc_config dc) (real_of_int (get_analog c ANALOG_RIGHT_X) / 127)
                      else applyDeadzone (dc_config dc) (real_of_int (get_analog c ANALOG_LEFT_X) / 127));
             drive = applyCurve (dc_config dc) drive0;
             turn = applyCurve (dc_config dc) turn0 * turn_scale (dc_config dc);
             lr = arcade_normalize (arcade_sums drive turn)
         in apply_to_motors (fst lr) (snd lr) 0 ch))"

definition DriverControl_update :: "DriverControl \<Rightarrow> Controller \<Rightarrow> Chassis \<Rightarrow> Chassis" where
  "DriverControl_update dc c ch =
     (if \<not> dc_enabled dc then ch
      else case mode (dc_config dc) of
        TANK \<Rightarrow> processTankDrive dc c ch
      | ARCADE \<Rightarrow> processArcadeDrive False dc c ch
      | SPLIT \<Rightarrow> processArcadeDrive True dc c ch)"

definition DriverControl_disable :: "DriverControl \<Rightarrow> Chassis \<Rightarrow> DriverControl \<times> Chassis" where
  "DriverControl_disable dc ch = (dc\<lparr>dc_enabled := False\<rparr>, stop ch)"

text \<open>
  What the specification says of the arcade and split modes, for the inputs \<open>drive\<close> and
  \<open>turn\<close> as they are after the dead zone, the curve and the turn scale: the velocity
  written to motor \<open>i\<close> of \<open>n\<close>.
\<close>

definition spec_arcade_velocity :: "real \<Rightarrow> real \<Rightarrow> nat \<Rightarrow> nat \<Rightarrow> real" where
  "spec_arcade_velocity drive turn n i =
     (let left = drive + turn; right = drive - turn; mx = max \<bar>left\<bar> \<bar>right\<bar>;
          side = (if i < n div 2 then left else right)
      in (if mx > 1 then side / mx else side) * 200)"

text \<open>
  The inputs of \<open>processArcadeDrive\<close> after the dead zone, the curve and the turn scale.
\<close>

definition arcade_drive_input :: "DriverControl \<Rightarrow> Controller \<Rightarrow> real" where
  "arcade_drive_input dc c =
     applyCurve (dc_config dc)
       (applyDeadzone (dc_config dc) (real_of_int (get_analog c ANALOG_LEFT_Y) / 127))"

definition arcade_turn_input :: "bool \<Rightarrow> DriverControl \<Rightarrow> Controller \<Rightarrow> real" where
  "arcade_turn_input split dc c =
     applyCurve (dc_config dc)
       (applyDeadzone (dc_config dc)
          (real_of_int (get_analog c (if split then ANALOG_RIGHT_X else ANALOG_LEFT_X)) / 127))
     * turn_scale (dc_config dc)"

text \<open>
  Sample: a driver control with the default configuration, enabled, and a controller
  whose left stick is pushed to the corner (127 on both axes).
\<close>

definition demo_driver :: DriverControl where
  "demo_driver = \<lparr>dc_name = ''driver'', dc_config = DriverConfig_default, dc_enabled = True\<rparr>"

definition corner_controller :: Controller where
  "corner_controller =
     \<lparr>held = (\<lambda>b. False), reported = (\<lambda>b. False),
      stick = (\<lambda>a. if a = ANALOG_LEFT_X \<or> a = ANALOG_LEFT_Y then 127 else 0)\<rparr>"

section \<open>Properties of the macro system\<close>

lemma startMacro_enabled:
  "ms_enabled s \<Longrightarrow> startMacro M name s = spec_start M name s"
  by (auto simp: startMacro_def spec_start_def isMacroActive_def split: option.splits)

lemma startMacro_disabled:
  "\<not> ms_enabled s \<Longrightarrow> startMacro M name s = (False, s)"
  by (simp add: startMacro_def)

lemma isMacroActive_stopMacro: "\<not> isMacroActive (stopMacro s)"
  by (simp add: isMacroActive_def stopMacro_def)

lemma MacroSystem_update_complete:
  assumes "ms_enabled s" and "ms_active_macro s \<noteq> []"
    and "ms_macros s (ms_active_macro s) = Some m"
    and "isComplete M (fst (execute M m w))"
  shows "\<not> isMacroActive (fst (MacroSystem_update M (s, w)))"
    and "ms_enabled (fst (MacroSystem_update M (s, w)))"
    and "dom (ms_macros (fst (MacroSystem_update M (s, w)))) = dom (ms_macros s)"
  using assms
  by (auto simp: MacroSystem_update_def Let_def isMacroActive_def stopMacro_def
           split: prod.splits)

text \<open>
  C2, the claim as written, fails: on a disabled system with \<open>A\<close> registered and no macro
  active, \<open>startMacro\<close> returns false, where the specification's reading starts \<open>A\<close>.
\<close>

theorem startMacro_spec_counterexample:
  "\<not> isMacroActive (MacroSystem_disable two_macros)
   \<and> ''A'' \<in> dom (ms_macros (MacroSystem_disable two_macros))
   \<and> fst (startMacro MovementMacro_class ''A'' (MacroSystem_disable two_macros)) = False
   \<and> fst (spec_start MovementMacro_class ''A'' (MacroSystem_disable two_macros)) = True"
  by (simp add: startMacro_def spec_start_def isMacroActive_def MacroSystem_disable_def
      stopMacro_def two_macros_def registerMacro_def MacroSystem_initialize_def)

text \<open>
  C2, amended: on every \<^emph>\<open>enabled\<close> macro system and for every name, \<open>startMacro\<close> returns
  false and changes nothing if a macro is already active or the name is not in the
  catalog; otherwise it resets the named macro, stores the name as the active macro name
  (so a macro with a non-empty name is then active) and returns true. Moreover, on an
  enabled idle system with \<open>a\<close> and \<open>b\<close> registered (\<open>a\<close> non-empty): starting \<open>a\<close>
  succeeds; starting \<open>b\<close> right after fails, changes nothing and leaves \<open>a\<close> active; and
  once an update has executed \<open>a\<close> and \<open>a\<close> reports complete, starting \<open>b\<close> succeeds.
\<close>

theorem startMacro_enabled_spec:
  "(ms_enabled s \<longrightarrow>
      startMacro M name s = spec_start M name s
      \<and> (fst (startMacro M name s) \<and> name \<noteq> [] \<longrightarrow> isMacroActive (snd (startMacro M name s))))
   \<and> (ms_enabled s \<and> \<not> isMacroActive s \<and> a \<noteq> [] \<and> ms_macros s a = Some ma \<and> ms_macros s b = Some mb \<longrightarrow>
        fst (startMacro M a s)
        \<and> ms_active_macro (snd (startMacro M a s)) = a
        \<and> startMacro M b (snd (startMacro M a s)) = (False, snd (startMacro M a s))
        \<and> (isComplete M (fst (execute M (reset M ma) w)) \<longrightarrow>
             fst (startMacro M b (fst (MacroSystem_update M (snd (startMacro M a s), w))))
             \<and> ms_active_macro (snd (startMacro M b (fst (MacroSystem_update M (snd (startMacro M a s), w))))) = b))"
proof (intro conjI impI)
  assume en: "ms_enabled s"
  show "startMacro M name s = spec_start M name s"
    using en by (rule startMacro_enabled)
  assume "fst (startMacro M name s) \<and> name \<noteq> []"
  then show "isMacroActive (snd (startMacro M name s))"
    using en by (auto simp: startMacro_def isMacroActive_def split: option.splits if_splits)
next
  assume h: "ms_enabled s \<and> \<not> isMacroActive s \<and> a \<noteq> [] \<and> ms_macros s a = Some ma \<and> ms_macros s b = Some mb"
  define s1 where "s1 = s\<lparr>ms_active_macro := a, ms_macros := (ms_macros s)(a \<mapsto> reset M ma)\<rparr>"
  have st: "startMacro M a s = (True, s1)"
    using h by (simp add: startMacro_def isMacroActive_def s1_def)
  have s1: "ms_enabled s1" "ms_active_macro s1 = a" "ms_macros s1 a = Some (reset M ma)"
    "ms_macros s1 b \<noteq> None"
    using h by (auto simp: s1_def)
  show "fst (startMacro M a s)" by (simp add: st)
  show "ms_active_macro (snd (startMacro M a s)) = a" by (simp add: st s1)
  show "startMacro M b (snd (startMacro M a s)) = (False, snd (startMacro M a s))"
    using h s1 by (auto simp: st startMacro_def split: option.splits)
  assume c: "isComplete M (fst (execute M (reset M ma) w))"
  define s2 where "s2 = fst (MacroSystem_update M (s1, w))"
  have idle: "\<not> isMacroActive s2" and en2: "ms_enabled s2"
    and dom2: "dom (ms_macros s2) = dom (ms_macros s1)"
    unfolding s2_def using MacroSystem_update_complete [of s1 "reset M ma" M w] s1 h c
    by simp_all
  have "b \<in> dom (ms_macros s2)"
    using dom2 s1 by auto
  then obtain mb' where mb': "ms_macros s2 b = Some mb'"
    by auto
  have "startMacro M b s2 = (True, s2\<lparr>ms_active_macro := b, ms_macros := (ms_macros s2)(b \<mapsto> reset M mb')\<rparr>)"
    using idle en2 mb' by (simp add: startMacro_def isMacroActive_def)
  then show "fst (startMacro M b (fst (MacroSystem_update M (snd (startMacro M a s), w))))"
    and "ms_active_macro (snd (startMacro M b (fst (MacroSystem_update M (snd (startMacro M a s), w))))) = b"
    by (simp_all add: st s2_def)
qed

theorem startMacro_enabled_spec_witness:
  "ms_enabled two_macros \<and> \<not> isMacroActive two_macros
   \<and> ms_macros two_macros ''A'' = Some noop_macro \<and> ms_macros two_macros ''B'' = Some noop_macro
   \<and> isComplete MovementMacro_class (fst (execute MovementMacro_class (reset MovementMacro_class noop_macro) ()))
   \<and> fst (startMacro MovementMacro_class ''A'' two_macros)
   \<and> isMacroActive (snd (startMacro MovementMacro_class ''A'' two_macros))
   \<and> ms_active_macro (snd (startMacro MovementMacro_class ''A'' two_macros)) = ''A''
   \<and> startMacro MovementMacro_class ''B'' (snd (startMacro MovementMacro_class ''A'' two_macros))
       = (False, snd (startMacro MovementMacro_class ''A'' two_macros))
   \<and> fst (startMacro MovementMacro_class ''B''
            (fst (MacroSystem_update MovementMacro_class
                    (snd (startMacro MovementMacro_class ''A'' two_macros), ()))))
   \<and> ms_active_macro (snd (startMacro MovementMacro_class ''B''
            (fst (MacroSystem_update MovementMacro_class
                    (snd (startMacro MovementMacro_class ''A'' two_macros), ()))))) = ''B''"
proof -
  have h: "ms_enabled two_macros" "\<not> isMacroActive two_macros"
    "ms_macros two_macros ''A'' = Some noop_macro" "ms_macros two_macros ''B'' = Some noop_macro"
    by (simp_all add: two_macros_def registerMacro_def MacroSystem_initialize_def isMacroActive_def)
  have c: "isComplete MovementMacro_class
             (fst (execute MovementMacro_class (reset MovementMacro_class noop_macro) ()))"
    by (simp add: MovementMacro_class_def MovementMacro_execute_def MovementMacro_isComplete_def
        MovementMacro_reset_def noop_macro_def)
  show ?thesis
    using h c
      startMacro_enabled_spec [where s = two_macros and M = MovementMacro_class
        and name = "''A''" and a = "''A''" and ma = noop_macro and b = "''B''" and mb = noop_macro
        and w = "()"]
    by blast
qed

text \<open>
  C10: on every disabled macro system, \<open>startMacro\<close> returns false and leaves the whole
  state (in particular the active macro name and the catalog) unchanged, whatever the
  name, also when the name is registered and no macro is active.
\<close>

theorem startMacro_disabled_fails:
  "\<not> ms_enabled s \<Longrightarrow>
     fst (startMacro M name s) = False
     \<and> snd (startMacro M name s) = s
     \<and> ms_active_macro (snd (startMacro M name s)) = ms_active_macro s
     \<and> ms_macros (snd (startMacro M name s)) = ms_macros s"
  by (simp add: startMacro_disabled)

theorem startMacro_disabled_fails_witness:
  "\<not> ms_enabled (MacroSystem_disable two_macros)
   \<and> ''A'' \<in> dom (ms_macros (MacroSystem_disable two_macros))
   \<and> \<not> isMacroActive (MacroSystem_disable two_macros)
   \<and> fst (startMacro MovementMacro_class ''A'' (MacroSystem_disable two_macros)) = False
   \<and> snd (startMacro MovementMacro_class ''A'' (MacroSystem_disable two_macros))
       = MacroSystem_disable two_macros"
proof -
  have h: "\<not> ms_enabled (MacroSystem_disable two_macros)"
    by (simp add: MacroSystem_disable_def stopMacro_def)
  have r: "''A'' \<in> dom (ms_macros (MacroSystem_disable two_macros))"
    "\<not> isMacroActive (MacroSystem_disable two_macros)"
    by (simp_all add: MacroSystem_disable_def stopMacro_def two_macros_def registerMacro_def
        MacroSystem_initialize_def isMacroActive_def)
  show ?thesis
    using h r startMacro_disabled_fails [OF h, of MovementMacro_class "''A''"] by simp
qed

section \<open>Properties of the input mapper and of the arbiter\<close>

lemma sequence_matches_always: "sequence_matches c bs"
  by (induction bs) simp_all

lemma length_filter_fst:
  "length (filter (\<lambda>entry. g (fst entry)) h) = length (filter g (map fst h))"
  by (induction h) simp_all

lemma clean_old_inputs_times:
  assumes eq: "map fst h' = map fst h"
  shows "length (clean_old_inputs now binding h') = length (clean_old_inputs now binding h)"
proof -
  let ?g = "\<lambda>t. \<not> (wrap64 (now - t) > wrap64 (sequence_window binding * 1000000))"
  have "length (clean_old_inputs now binding h') = length (filter ?g (map fst h'))"
    unfolding clean_old_inputs_def using length_filter_fst [of ?g h'] .
  also have "\<dots> = length (filter ?g (map fst h))"
    by (simp only: eq)
  also have "\<dots> = length (clean_old_inputs now binding h)"
    unfolding clean_old_inputs_def using length_filter_fst [of ?g h, symmetric] .
  finally show ?thesis .
qed

lemma checkBinding_sequence_verdict:
  "type binding = SEQUENCE \<Longrightarrow>
     fst (checkBinding binding now (c, h))
       = (length (clean_old_inputs now binding h) = length (buttons binding))"
  by (simp add: checkBinding_def Let_def sequence_matches_always)

lemma wrap64_in_range: "- (2 ^ 63) \<le> i \<Longrightarrow> i < 2 ^ 63 \<Longrightarrow> wrap64 i = i"
  by (simp add: wrap64_def)

lemma window_in_range:
  "- 9223372036854 \<le> w \<Longrightarrow> w \<le> 9223372036854 \<Longrightarrow> wrap64 (w * 1000000) = w * 1000000"
  by (rule wrap64_in_range) simp_all

lemma clean_old_inputs_in_range:
  assumes "- 9223372036854 \<le> sequence_window binding" and "sequence_window binding \<le> 9223372036854"
    and "\<forall>entry \<in> set h. - (2 ^ 63) \<le> now - fst entry \<and> now - fst entry < 2 ^ 63"
  shows "clean_old_inputs now binding h = spec_within_window now binding h"
  unfolding clean_old_inputs_def spec_within_window_def
proof (rule filter_cong [OF refl])
  fix entry
  assume "entry \<in> set h"
  then have "wrap64 (now - fst entry) = now - fst entry"
    using assms(3) by (simp add: wrap64_in_range)
  then show "(\<not> wrap64 (sequence_window binding * 1000000) < wrap64 (now - fst entry))
      = (now - fst entry \<le> sequence_window binding * 1000000)"
    using window_in_range [OF assms(1,2)] by auto
qed

text \<open>
  C6, the claim as written, fails: \<open>seq_huge\<close> is a sequence binding of two buttons whose
  window, 9223372036855 ms, does not fit the 64-bit count of nanoseconds in which the
  ages are compared. At 600 ms the two presses recorded at 200 ms and 300 ms are within
  that window, as many as the binding expects, yet \<open>checkBinding\<close> erases them and
  declares no match.
\<close>

theorem checkBinding_huge_window_counterexample:
  "type seq_huge = SEQUENCE
   \<and> length (spec_within_window 600000000 seq_huge presses_AA) = length (buttons seq_huge)
   \<and> \<not> fst (checkBinding seq_huge 600000000 (idle_controller, presses_AA))
   \<and> snd (snd (checkBinding seq_huge 600000000 (idle_controller, presses_AA))) = []"
  by (simp add: checkBinding_def seq_huge_def presses_AA_def spec_within_window_def
      clean_old_inputs_def wrap64_def idle_controller_def get_digital_new_press_def)

text \<open>
  C6, amended: for every \<open>SEQUENCE\<close> binding whose window is at most 9223372036854 ms in
  absolute value (so that it converts to a 64-bit count of nanoseconds), and every
  history whose ages fit that count, \<open>checkBinding\<close> declares a match exactly when the
  number of recorded entries that are at most the window old equals the number of
  expected buttons. For every \<open>SEQUENCE\<close> binding, a match clears the history (and the
  controller is not polled), and the verdict depends on the time stamps alone: another
  controller state and other recorded button names with the same time stamps give the
  same verdict.
\<close>

theorem checkBinding_sequence_counts_only:
  "type binding = SEQUENCE \<Longrightarrow>
     (- 9223372036854 \<le> sequence_window binding \<and> sequence_window binding \<le> 9223372036854
        \<and> (\<forall>entry \<in> set h. - (2 ^ 63) \<le> now - fst entry \<and> now - fst entry < 2 ^ 63) \<longrightarrow>
          (fst (checkBinding binding now (c, h))
             \<longleftrightarrow> length (spec_within_window now binding h) = length (buttons binding)))
     \<and> (fst (checkBinding binding now (c, h)) \<longrightarrow> snd (checkBinding binding now (c, h)) = (c, []))
     \<and> (map fst h' = map fst h \<longrightarrow>
          fst (checkBinding binding now (c', h')) = fst (checkBinding binding now (c, h)))"
proof (intro conjI impI)
  assume t: "type binding = SEQUENCE"
  show "fst (checkBinding binding now (c, h))
          \<longleftrightarrow> length (spec_within_window now binding h) = length (buttons binding)"
    if "- 9223372036854 \<le> sequence_window binding \<and> sequence_window binding \<le> 9223372036854
        \<and> (\<forall>entry \<in> set h. - (2 ^ 63) \<le> now - fst entry \<and> now - fst entry < 2 ^ 63)"
    using t that clean_old_inputs_in_range [of binding h now]
    by (simp add: checkBinding_sequence_verdict)
  show "snd (checkBinding binding now (c, h)) = (c, [])" if "fst (checkBinding binding now (c, h))"
    using t that by (simp add: checkBinding_def Let_def split: if_splits)
  show "fst (checkBinding binding now (c', h')) = fst (checkBinding binding now (c, h))"
    if "map fst h' = map fst h"
    using t clean_old_inputs_times [OF that, of now binding]
    by (simp add: checkBinding_sequence_verdict)
qed

text \<open>
  A run of \<open>checkBinding\<close> on \<open>seq_AB\<close> from an empty history: A is pressed at 200 ms,
  released, and pressed again at 300 ms; the two presses are recorded, and the call at
  310 ms declares the sequence A then B matched.
\<close>

lemma sequence_A_twice_run:
  "(case checkBinding seq_AB 200000000 (A_down idle_controller, []) of (r1, c1, h1) \<Rightarrow>
    case checkBinding seq_AB 250000000 (A_up c1, h1) of (r2, c2, h2) \<Rightarrow>
    case checkBinding seq_AB 300000000 (A_down c2, h2) of (r3, c3, h3) \<Rightarrow>
    case checkBinding seq_AB 310000000 (c3, h3) of (r4, c4, h4) \<Rightarrow>
      \<not> r1 \<and> \<not> r2 \<and> \<not> r3 \<and> h3 = presses_AA \<and> r4 \<and> h4 = [])"
  by (simp add: checkBinding_def seq_AB_def clean_old_inputs_def wrap64_def A_down_def A_up_def
      idle_controller_def get_digital_new_press_def get_digital_def presses_AA_def
      to_string_def to_string_nat.simps)

text \<open>
  On \<open>seq_AB\<close> (A then B expected within 500 ms), with presses of A recorded at 50 ms,
  200 ms and 300 ms: at 600 ms the first press has expired and the two others match
  the binding; at 750 ms only the last press is within the window and nothing matches;
  at 500 ms all three are within the window and nothing matches. The presses B then A
  at 200 ms and 300 ms match as well.
\<close>

theorem checkBinding_sequence_counts_only_witness:
  "type seq_AB = SEQUENCE
   \<and> spec_within_window 600000000 seq_AB presses_AAA = presses_AA
   \<and> fst (checkBinding seq_AB 600000000 (idle_controller, presses_AAA))
   \<and> snd (checkBinding seq_AB 600000000 (idle_controller, presses_AAA)) = (idle_controller, [])
   \<and> length (spec_within_window 750000000 seq_AB presses_AAA) = 1
   \<and> \<not> fst (checkBinding seq_AB 750000000 (idle_controller, presses_AAA))
   \<and> length (spec_within_window 500000000 seq_AB presses_AAA) = 3
   \<and> \<not> fst (checkBinding seq_AB 500000000 (idle_controller, presses_AAA))
   \<and> map fst presses_BA = map fst presses_AA
   \<and> fst (checkBinding seq_AB 600000000 (A_down idle_controller, presses_BA))"
proof -
  have t: "type seq_AB = SEQUENCE"
    and w: "- 9223372036854 \<le> sequence_window seq_AB" "sequence_window seq_AB \<le> 9223372036854"
    by (simp_all add: seq_AB_def)
  have r6: "\<forall>entry \<in> set presses_AAA. - (2 ^ 63) \<le> 600000000 - fst entry \<and> 600000000 - fst entry < 2 ^ 63"
    and r7: "\<forall>entry \<in> set presses_AAA. - (2 ^ 63) \<le> 750000000 - fst entry \<and> 750000000 - fst entry < 2 ^ 63"
    and r5: "\<forall>entry \<in> set presses_AAA. - (2 ^ 63) \<le> 500000000 - fst entry \<and> 500000000 - fst entry < 2 ^ 63"
    by (simp_all add: presses_AAA_def)
  have r2: "\<forall>entry \<in> set presses_AA. - (2 ^ 63) \<le> 600000000 - fst entry \<and> 600000000 - fst entry < 2 ^ 63"
    by (simp add: presses_AA_def)
  have s6: "spec_within_window 600000000 seq_AB presses_AAA = presses_AA"
    and s7: "length (spec_within_window 750000000 seq_AB presses_AAA) = 1"
    and s5: "length (spec_within_window 500000000 seq_AB presses_AAA) = 3"
    by (simp_all add: spec_within_window_def seq_AB_def presses_AAA_def presses_AA_def)
  have n6: "length (spec_within_window 600000000 seq_AB presses_AAA) = length (buttons seq_AB)"
    and n7: "length (spec_within_window 750000000 seq_AB presses_AAA) \<noteq> length (buttons seq_AB)"
    and n5: "length (spec_within_window 500000000 seq_AB presses_AAA) \<noteq> length (buttons seq_AB)"
    and n2: "length (spec_within_window 600000000 seq_AB presses_AA) = length (buttons seq_AB)"
    by (simp_all add: spec_within_window_def seq_AB_def presses_AAA_def presses_AA_def)
  have m: "map fst presses_BA = map fst presses_AA"
    by (simp add: presses_BA_def presses_AA_def)
  have a6: "fst (checkBinding seq_AB 600000000 (idle_controller, presses_AAA))"
    and c6: "snd (checkBinding seq_AB 600000000 (idle_controller, presses_AAA)) = (idle_controller, [])"
    using checkBinding_sequence_counts_only [OF t, of presses_AAA 600000000 idle_controller]
      w r6 n6 by blast+
  have a7: "\<not> fst (checkBinding seq_AB 750000000 (idle_controller, presses_AAA))"
    using checkBinding_sequence_counts_only [OF t, of presses_AAA 750000000 idle_controller]
      w r7 n7 by blast
  have a5: "\<not> fst (checkBinding seq_AB 500000000 (idle_controller, presses_AAA))"
    using checkBinding_sequence_counts_only [OF t, of presses_AAA 500000000 idle_controller]
      w r5 n5 by blast
  have aa: "fst (checkBinding seq_AB 600000000 (idle_controller, presses_AA))"
    using checkBinding_sequence_counts_only [OF t, of presses_AA 600000000 idle_controller]
      w r2 n2 by blast
  have ba: "fst (checkBinding seq_AB 600000000 (A_down idle_controller, presses_BA))"
    using checkBinding_sequence_counts_only [OF t, of presses_AA 600000000 idle_controller
        presses_BA "A_down idle_controller"] m aa by blast
  show ?thesis
    using t s6 a6 c6 s7 a7 s5 a5 m ba by blast
qed











section \<open>Properties of the registry and of the event system\<close>

lemma getSubsystemByType_registered:
  "h p = Some obj \<Longrightarrow>
     \<exists>h' r'. registerSubsystem T p (h, r) = Inr (h', r') \<and> getSubsystemByType T r' = Inr (Some p)"
  by (simp add: registerSubsystem_def getSubsystemByType_def)

text \<open>
  C8: when a second subsystem is registered under the name of a first, a lookup by that
  name resolves to the second object (if it has the requested class) and never to the
  first; and after a registration under the class \<open>T\<close>, a lookup by a different class
  \<open>T'\<close> under which nothing was registered returns the empty result.
\<close>

theorem registry_same_name_and_other_type:
  "(h a = Some oa \<and> h b = Some ob \<and> a \<noteq> b \<and> obj_name oa = n \<and> obj_name ob = n \<longrightarrow>
      (\<exists>s1 s2. registerSubsystem Ta a (h, r) = Inr s1 \<and> registerSubsystem Tb b s1 = Inr s2
         \<and> getSubsystem T n s2 = (if derives (obj_class ob) T then Some b else None)
         \<and> getSubsystem T n s2 \<noteq> Some a))
   \<and> (h a = Some oa \<and> T' \<noteq> Ta \<and> type_cache r T' = None \<longrightarrow>
      (\<exists>s1. registerSubsystem Ta a (h, r) = Inr s1 \<and> getSubsystemByType T' (snd s1) = Inr None))"
proof (intro conjI impI)
  assume p: "h a = Some oa \<and> h b = Some ob \<and> a \<noteq> b \<and> obj_name oa = n \<and> obj_name ob = n"
  define s1 where "s1 = (h(a \<mapsto> oa\<lparr>obj_enabled := True\<rparr>),
      r\<lparr>subsystems := (subsystems r)(n \<mapsto> a), type_cache := (type_cache r)(Ta \<mapsto> (Ta, a))\<rparr>)"
  define s2 where "s2 = ((fst s1)(b \<mapsto> ob\<lparr>obj_enabled := True\<rparr>),
      (snd s1)\<lparr>subsystems := (subsystems (snd s1))(n \<mapsto> b),
                type_cache := (type_cache (snd s1))(Tb \<mapsto> (Tb, b))\<rparr>)"
  have r1: "registerSubsystem Ta a (h, r) = Inr s1"
    using p by (simp add: registerSubsystem_def s1_def)
  have "fst s1 b = Some ob"
    using p by (simp add: s1_def)
  then have r2: "registerSubsystem Tb b s1 = Inr s2"
    using p by (simp add: registerSubsystem_def s2_def)
  have g: "getSubsystem T n s2 = (if derives (obj_class ob) T then Some b else None)"
    by (simp add: getSubsystem_def dynamic_pointer_cast_def s2_def)
  have "getSubsystem T n s2 \<noteq> Some a"
    using p by (simp add: g)
  with r1 r2 g
  show "\<exists>s1 s2. registerSubsystem Ta a (h, r) = Inr s1 \<and> registerSubsystem Tb b s1 = Inr s2
         \<and> getSubsystem T n s2 = (if derives (obj_class ob) T then Some b else None)
         \<and> getSubsystem T n s2 \<noteq> Some a"
    by blast
next
  assume "h a = Some oa \<and> T' \<noteq> Ta \<and> type_cache r T' = None"
  then show "\<exists>s1. registerSubsystem Ta a (h, r) = Inr s1 \<and> getSubsystemByType T' (snd s1) = Inr None"
    by (simp add: registerSubsystem_def getSubsystemByType_def)
qed

text \<open>
  On the sample heap: the two chassis are registered under the name \<open>chassis\<close>, and the
  name then resolves to the second; after registering the tank chassis with
  orientation-enhanced odometry alone, a lookup by the base class \<open>Chassis\<close> of the same
  configuration, or by the tank chassis of another configuration, is empty.
\<close>

theorem registry_same_name_and_other_type_witness:
  "two_chassis 1 \<noteq> None \<and> two_chassis 2 \<noteq> None
   \<and> obj_name (the (two_chassis 1)) = obj_name (the (two_chassis 2))
   \<and> (\<exists>s1 s2. registerSubsystem (TankChassis_class imu_config) 1 (two_chassis, empty_registry) = Inr s1
         \<and> registerSubsystem (TankChassis_class tracking_config) 2 s1 = Inr s2
         \<and> getSubsystem ISubsystem_class ''chassis'' s2 = Some 2)
   \<and> (\<exists>s1. registerSubsystem (TankChassis_class imu_config) 1 (two_chassis, empty_registry) = Inr s1
         \<and> getSubsystemByType (Chassis_class imu_config) (snd s1) = Inr None)
   \<and> TankChassis_class tracking_config \<noteq> TankChassis_class imu_config
   \<and> (\<exists>s1. registerSubsystem (TankChassis_class imu_config) 1 (two_chassis, empty_registry) = Inr s1
         \<and> getSubsystemByType (TankChassis_class tracking_config) (snd s1) = Inr None)"
proof -
  have o1: "two_chassis 1 = Some \<lparr>obj_class = TankChassis_class imu_config, obj_name = ''chassis'', obj_enabled = False\<rparr>"
    and o2: "two_chassis 2 = Some \<lparr>obj_class = TankChassis_class tracking_config, obj_name = ''chassis'', obj_enabled = False\<rparr>"
    by (simp_all add: two_chassis_def)
  have e: "type_cache empty_registry (Chassis_class imu_config) = None"
    "type_cache empty_registry (TankChassis_class tracking_config) = None"
    by (simp_all add: empty_registry_def)
  have d: "TankChassis_class tracking_config \<noteq> TankChassis_class imu_config"
    by (simp add: tracking_config_def imu_config_def)
  note th = registry_same_name_and_other_type [where h = two_chassis and r = empty_registry
      and a = 1 and Ta = "TankChassis_class imu_config"
      and oa = "\<lparr>obj_class = TankChassis_class imu_config, obj_name = ''chassis'', obj_enabled = False\<rparr>"
      and b = 2 and Tb = "TankChassis_class tracking_config"
      and ob = "\<lparr>obj_class = TankChassis_class tracking_config, obj_name = ''chassis'', obj_enabled = False\<rparr>"
      and n = "''chassis''" and T = ISubsystem_class]
  have A: "\<exists>s1 s2. registerSubsystem (TankChassis_class imu_config) 1 (two_chassis, empty_registry) = Inr s1
         \<and> registerSubsystem (TankChassis_class tracking_config) 2 s1 = Inr s2
         \<and> getSubsystem ISubsystem_class ''chassis'' s2 = Some 2"
    using th [where T' = "Chassis_class imu_config"] o1 o2 by fastforce
  have B: "\<exists>s1. registerSubsystem (TankChassis_class imu_config) 1 (two_chassis, empty_registry) = Inr s1
         \<and> getSubsystemByType (Chassis_class imu_config) (snd s1) = Inr None"
    using th [where T' = "Chassis_class imu_config"] o1 e by simp
  have C: "\<exists>s1. registerSubsystem (TankChassis_class imu_config) 1 (two_chassis, empty_registry) = Inr s1
         \<and> getSubsystemByType (TankChassis_class tracking_config) (snd s1) = Inr None"
    using th [where T' = "TankChassis_class tracking_config"] o1 e d by simp
  show ?thesis
    using A B C d o1 o2 by simp
qed

lemma emit_subscribe:
  "emit topic data (subscribe T event_type handler handlers) w =
     (if event_type = topic \<and> type_of data = T
      then handler data (emit topic data handlers w)
      else emit topic data handlers w)"
  by (auto simp: emit_def subscribe_def any_cast_def split: option.splits)

lemma emit_subscribe_all:
  "emit topic data (subscribe_all subs handlers) w
     = spec_emit subs topic data (emit topic data handlers w)"
proof (induction subs arbitrary: handlers)
  case Nil
  show ?case by (simp add: spec_emit_def)
next
  case (Cons sub subs)
  obtain T event_type handler where sub: "sub = (T, event_type, handler)"
    by (cases sub)
  show ?case
    unfolding sub subscribe_all.simps Cons.IH emit_subscribe
    by (simp add: spec_emit_def)
qed

text \<open>
  C9: after any list of subscriptions, \<open>emit\<close> runs exactly the handlers of that topic
  that were subscribed for the type of the payload, in the order of subscription; a
  handler subscribed for another type is skipped without any effect or error. So a
  handler subscribed for \<open>bool\<close> is not run by an \<open>int\<close> payload, whatever else is
  subscribed before it.
\<close>

theorem emit_runs_matching_type_only:
  "emit topic data (subscribe_all subs Map.empty) w = spec_emit subs topic data w
   \<and> emit topic (any_int i) (subscribe T_bool topic handler handlers) w
       = emit topic (any_int i) handlers w
   \<and> emit topic (any_bool b) (subscribe T_bool topic handler handlers) w
       = handler (any_bool b) (emit topic (any_bool b) handlers w)"
  by (simp add: emit_subscribe_all emit_subscribe) (simp add: emit_def)

text \<open>
  With a \<open>bool\<close> handler and an \<open>int\<close> handler subscribed to the same topic, an \<open>int\<close>
  payload runs the \<open>int\<close> handler alone and a \<open>bool\<close> payload the \<open>bool\<close> handler alone.
\<close>

theorem emit_runs_matching_type_only_witness:
  "emit ''clamp_state_changed'' (any_int 1) (subscribe_all log_handlers Map.empty) [] = [''int handler'']
   \<and> emit ''clamp_state_changed'' (any_bool True) (subscribe_all log_handlers Map.empty) [] = [''bool handler'']"
  using emit_runs_matching_type_only [of "''clamp_state_changed''" "any_int 1" log_handlers "[]"]
    emit_runs_matching_type_only [of "''clamp_state_changed''" "any_bool True" log_handlers "[]"]
  by (simp add: spec_emit_def log_handlers_def)

section \<open>Properties of the chassis\<close>

subsection \<open>The position estimate\<close>

text \<open>
  C7, the claim as written, fails: the chassis \<open>coasting_chassis\<close> has the
  orientation-enhanced strategy but no inertial sensor yet (\<open>imu_\<close> is null); while the
  sensor reads 90 degrees, \<open>getPosition\<close> returns the stored heading 0.
\<close>

theorem getPosition_imu_counterexample:
  "odomType (config coasting_chassis) = IMU_ENHANCED
   \<and> heading (fst (getPosition \<lparr>imu_heading = 90, left_position = 0, right_position = 0\<rparr> coasting_chassis))
       = 0
   \<and> imu_heading \<lparr>imu_heading = 90, left_position = 0, right_position = 0\<rparr> * pi / 180 \<noteq> 0"
  by (simp add: getPosition_def coasting_chassis_def setMotorVelocity_def addMotor_def
      Chassis_new_def imu_config_def)

text \<open>
  C7, amended: with the orientation-enhanced strategy every call of \<open>getPosition\<close>
  returns the stored \<open>x\<close> and \<open>y\<close> and leaves the chassis, hence the stored pose, as it
  was; the heading returned is the reading of the inertial sensor converted to radians
  when the sensor has been initialised, and the stored heading otherwise.
\<close>

theorem getPosition_imu_enhanced:
  "odomType (config ch) = IMU_ENHANCED \<Longrightarrow>
     pos_x (fst (getPosition s ch)) = pos_x (current_pos ch)
     \<and> pos_y (fst (getPosition s ch)) = pos_y (current_pos ch)
     \<and> snd (getPosition s ch) = ch
     \<and> heading (fst (getPosition s ch))
         = (if imu ch \<noteq> None then imu_heading s * pi / 180 else heading (current_pos ch))"
  by (simp add: getPosition_def)

theorem getPosition_imu_enhanced_witness:
  "odomType (config demo_chassis) = IMU_ENHANCED \<and> imu demo_chassis \<noteq> None
   \<and> snd (getPosition (readings still_env 0) demo_chassis) = demo_chassis
   \<and> fst (getPosition (readings still_env 0) demo_chassis)
       = \<lparr>pos_x = 0, pos_y = 0, heading = pi / 2\<rparr>"
proof -
  have c: "odomType (config demo_chassis) = IMU_ENHANCED" and i: "imu demo_chassis \<noteq> None"
    and p: "current_pos demo_chassis = \<lparr>pos_x = 0, pos_y = 0, heading = 0\<rparr>"
    by (simp_all add: demo_chassis_def Chassis_initialize_def initializeSensors_def addMotor_def
        Chassis_new_def imu_config_def Let_def)
  have r: "imu_heading (readings still_env 0) = 90"
    by (simp add: still_env_def)
  have "fst (getPosition (readings still_env 0) demo_chassis) = \<lparr>pos_x = 0, pos_y = 0, heading = pi / 2\<rparr>"
    using getPosition_imu_enhanced [OF c, of "readings still_env 0"] i p r
    by (cases "fst (getPosition (readings still_env 0) demo_chassis)") simp
  then show ?thesis
    using c i getPosition_imu_enhanced [OF c, of "readings still_env 0"] by simp
qed

subsection \<open>Point-to-point navigation\<close>

lemma stop_velocities: "list_all (\<lambda>m. velocity m = 0) (motors (stop ch))"
  by (simp add: stop_def list_all_iff move_velocity_def)

lemma moveTo_within_tolerance:
  assumes "ch_enabled ch" and "distanceTo (fst (getPosition (readings env 0) ch)) target < 1"
  shows "moveTo env target reverse ch = Some (stop (snd (getPosition (readings env 0) ch)))"
  using assms by (simp add: moveTo_def moveTo_loop.simps [of env target reverse 0 ch] Let_def)

text \<open>
  C1, the claim as written, fails: on the disabled chassis \<open>coasting_chassis\<close>, whose
  first motor runs at velocity 100, \<open>moveTo\<close> returns with the chassis as it was, the
  motor still at 100.
\<close>

theorem moveTo_disabled_counterexample:
  "\<not> ch_enabled coasting_chassis
   \<and> moveTo still_env \<lparr>pt_x = 24, pt_y = 0\<rparr> False coasting_chassis = Some coasting_chassis
   \<and> velocity (motors coasting_chassis ! 0) = 100"
  by (simp add: moveTo_def coasting_chassis_def setMotorVelocity_def addMotor_def
      Chassis_new_def move_velocity_def)

text \<open>
  C1, amended: when \<open>moveTo\<close> is called on an enabled chassis and returns, be it because
  the target is within the tolerance or because the chassis was disabled meanwhile,
  \<open>stop\<close> has been called last: every motor has velocity 0. Called on a disabled
  chassis, \<open>moveTo\<close> returns at once and leaves the chassis as it is.
\<close>

theorem moveTo_stops_when_entered_enabled:
  "(ch_enabled ch \<and> moveTo env target reverse ch = Some ch' \<longrightarrow>
      list_all (\<lambda>m. velocity m = 0) (motors ch') \<and> (\<exists>c. ch' = stop c))
   \<and> (\<not> ch_enabled ch \<longrightarrow> moveTo env target reverse ch = Some ch)"
proof (intro conjI impI)
  assume "ch_enabled ch \<and> moveTo env target reverse ch = Some ch'"
  then obtain c where c: "ch' = stop c"
    by (auto simp: moveTo_def)
  show "list_all (\<lambda>m. velocity m = 0) (motors ch')"
    unfolding c by (rule stop_velocities)
  show "\<exists>c. ch' = stop c"
    using c by blast
next
  assume "\<not> ch_enabled ch"
  then show "moveTo env target reverse ch = Some ch"
    by (simp add: moveTo_def)
qed

lemma demo_chassis_unfolded:
  "demo_chassis =
     \<lparr>config = imu_config, ch_name = ''chassis'',
      current_pos = \<lparr>pos_x = 0, pos_y = 0, heading = 0\<rparr>,
      motors = [\<lparr>port = 1, reversed = False, velocity = 0\<rparr>, \<lparr>port = 2, reversed = True, velocity = 0\<rparr>],
      imu = Some 9, left_encoder = None, right_encoder = None, ch_enabled = True\<rparr>"
  by (simp add: demo_chassis_def Chassis_initialize_def initializeSensors_def addMotor_def
      Chassis_new_def imu_config_def Let_def)

lemma moveTo_disabling_env_returns:
  "\<exists>c. moveTo disabling_env \<lparr>pt_x = 24, pt_y = 0\<rparr> False demo_chassis = Some (stop c)"
proof -
  let ?T = "\<lparr>pt_x = 24, pt_y = 0\<rparr>"
  have en: "ch_enabled demo_chassis"
    by (simp add: demo_chassis_unfolded)
  have far: "\<not> distanceTo (fst (getPosition (readings disabling_env 0) demo_chassis)) ?T < 1"
    by (simp add: demo_chassis_unfolded getPosition_def imu_config_def distanceTo_def)
  have off: "\<And>c. \<not> ch_enabled (during_delay disabling_env 0 c)"
    by (simp add: disabling_env_def Chassis_disable_def stop_def)
  have "\<exists>c. moveTo_loop disabling_env ?T False 0 demo_chassis = Some c"
    using en far off
    by (simp add: moveTo_loop.simps [of disabling_env ?T False 0] Let_def
        moveTo_loop.simps [of disabling_env ?T False "Suc 0"])
  then show ?thesis
    using en by (auto simp: moveTo_def)
qed

text \<open>
  Two runs that return: in \<open>disabling_env\<close> the chassis is 24 away from its target and is
  disabled during the first delay; in \<open>still_env\<close> the target is within the tolerance.
\<close>

theorem moveTo_stops_when_entered_enabled_witness:
  "ch_enabled demo_chassis
   \<and> (\<exists>c. moveTo disabling_env \<lparr>pt_x = 24, pt_y = 0\<rparr> False demo_chassis = Some (stop c)
          \<and> list_all (\<lambda>m. velocity m = 0) (motors (stop c)))
   \<and> moveTo still_env \<lparr>pt_x = 1 / 2, pt_y = 0\<rparr> False demo_chassis = Some (stop demo_chassis)
   \<and> list_all (\<lambda>m. velocity m = 0) (motors (stop demo_chassis))
   \<and> \<not> ch_enabled coasting_chassis
   \<and> moveTo still_env \<lparr>pt_x = 24, pt_y = 0\<rparr> False coasting_chassis = Some coasting_chassis"
proof -
  have en: "ch_enabled demo_chassis"
    by (simp add: demo_chassis_unfolded)
  obtain c where c: "moveTo disabling_env \<lparr>pt_x = 24, pt_y = 0\<rparr> False demo_chassis = Some (stop c)"
    using moveTo_disabling_env_returns by blast
  have near: "moveTo still_env \<lparr>pt_x = 1 / 2, pt_y = 0\<rparr> False demo_chassis = Some (stop demo_chassis)"
    using moveTo_within_tolerance [of demo_chassis still_env "\<lparr>pt_x = 1 / 2, pt_y = 0\<rparr>" False]
    by (simp add: demo_chassis_unfolded getPosition_def imu_config_def distanceTo_def)
  have dis: "\<not> ch_enabled coasting_chassis"
    by (simp add: coasting_chassis_def setMotorVelocity_def addMotor_def Chassis_new_def)
  show ?thesis
    using en c near dis
      moveTo_stops_when_entered_enabled [of demo_chassis disabling_env "\<lparr>pt_x = 24, pt_y = 0\<rparr>" False "stop c"]
      moveTo_stops_when_entered_enabled [of demo_chassis still_env "\<lparr>pt_x = 1 / 2, pt_y = 0\<rparr>" False "stop demo_chassis"]
      moveTo_stops_when_entered_enabled [of coasting_chassis still_env "\<lparr>pt_x = 24, pt_y = 0\<rparr>" False]
    by blast
qed

text \<open>
  The loop has no other exit: in \<open>still_env\<close>, where nothing disables the chassis, the
  orientation-enhanced position estimate stays at the origin, the target stays 24 away,
  and \<open>moveTo\<close> never returns.
\<close>

lemma moveTo_loop_blocks:
  assumes r: "moveTo_loop env target reverse i ch = Some y"
  shows "\<not> (env = still_env \<and> target = \<lparr>pt_x = 24, pt_y = 0\<rparr> \<and> ch_enabled ch
            \<and> odomType (config ch) = IMU_ENHANCED
            \<and> current_pos ch = \<lparr>pos_x = 0, pos_y = 0, heading = 0\<rparr>)"
proof (rule moveTo_loop.raw_induct
    [where P = "\<lambda>env target reverse i ch y.
        \<not> (env = still_env \<and> target = \<lparr>pt_x = 24, pt_y = 0\<rparr> \<and> ch_enabled ch
            \<and> odomType (config ch) = IMU_ENHANCED
            \<and> current_pos ch = \<lparr>pos_x = 0, pos_y = 0, heading = 0\<rparr>)", OF _ r])
  fix loop :: "Environment \<Rightarrow> Point \<Rightarrow> bool \<Rightarrow> nat \<Rightarrow> Chassis \<Rightarrow> Chassis option"
    and env target reverse i ch y
  assume IH: "\<And>env target reverse i ch y. loop env target reverse i ch = Some y \<Longrightarrow>
      \<not> (env = still_env \<and> target = \<lparr>pt_x = 24, pt_y = 0\<rparr> \<and> ch_enabled ch
            \<and> odomType (config ch) = IMU_ENHANCED
            \<and> current_pos ch = \<lparr>pos_x = 0, pos_y = 0, heading = 0\<rparr>)"
  assume body: "(if \<not> ch_enabled ch then Some ch
      else
        (let current = fst (getPosition (readings env i) ch);
             ch1 = snd (getPosition (readings env i) ch);
             distance = distanceTo current target
         in if distance < 1 then Some ch1
            else
              (let angle_error = moveTo_angle_error current target reverse;
                   turn_power = kTurnP * angle_error;
                   drive_power = kP * distance;
                   n = length (motors ch1);
                   ch2 = ch1\<lparr>motors :=
                           for_each_motor
                             (\<lambda>j. (drive_power + (if j < n div 2 then turn_power else - turn_power)) * 200)
                             0 (motors ch1)\<rparr>
               in loop env target reverse (Suc i) (during_delay env i ch2)))) = Some y"
  show "\<not> (env = still_env \<and> target = \<lparr>pt_x = 24, pt_y = 0\<rparr> \<and> ch_enabled ch
            \<and> odomType (config ch) = IMU_ENHANCED
            \<and> current_pos ch = \<lparr>pos_x = 0, pos_y = 0, heading = 0\<rparr>)"
  proof
    assume inv: "env = still_env \<and> target = \<lparr>pt_x = 24, pt_y = 0\<rparr> \<and> ch_enabled ch
            \<and> odomType (config ch) = IMU_ENHANCED
            \<and> current_pos ch = \<lparr>pos_x = 0, pos_y = 0, heading = 0\<rparr>"
    have g: "snd (getPosition (readings env i) ch) = ch"
      "pos_x (fst (getPosition (readings env i) ch)) = 0"
      "pos_y (fst (getPosition (readings env i) ch)) = 0"
      using inv by (simp_all add: getPosition_def)
    have far: "\<not> distanceTo (fst (getPosition (readings env i) ch)) target < 1"
      using inv g by (simp add: distanceTo_def)
    have same: "during_delay env i c = c" for c
      using inv by (simp add: still_env_def)
    obtain ms where "loop env target reverse (Suc i) (ch\<lparr>motors := ms\<rparr>) = Some y"
      using body inv far g same by (simp add: Let_def)
    then show False
      using IH [of env target reverse "Suc i" "ch\<lparr>motors := ms\<rparr>" y] inv by simp
  qed
qed

lemma moveTo_may_block:
  "moveTo still_env \<lparr>pt_x = 24, pt_y = 0\<rparr> False demo_chassis = None"
proof (cases "moveTo_loop still_env \<lparr>pt_x = 24, pt_y = 0\<rparr> False 0 demo_chassis")
  case None
  have "ch_enabled demo_chassis"
    by (simp add: demo_chassis_unfolded)
  then show ?thesis
    using None by (simp add: moveTo_def)
next
  case (Some y)
  then show ?thesis
    using moveTo_loop_blocks [OF Some] by (simp add: demo_chassis_unfolded imu_config_def)
qed

subsection \<open>Normalising the angle error\<close>

lemma subtract_turns_le: "subtract_turns e \<le> pi"
  by (induction e rule: subtract_turns.induct) (simp add: subtract_turns.simps)

lemma subtract_turns_id: "e \<le> pi \<Longrightarrow> subtract_turns e = e"
  by (simp add: subtract_turns.simps)

lemma subtract_turns_gt: "pi < e \<Longrightarrow> - pi < subtract_turns e"
proof (induction e rule: subtract_turns.induct)
  case (1 e)
  show ?case
  proof (cases "pi < e - 2 * pi")
    case True
    then show ?thesis
      using "1.IH" "1.prems" by (simp add: subtract_turns.simps [of e])
  next
    case False
    then show ?thesis
      using "1.prems" by (simp add: subtract_turns.simps [of e] subtract_turns.simps [of "e - 2 * pi"])
  qed
qed

lemma subtract_turns_multiple: "\<exists>k::nat. subtract_turns e = e - 2 * pi * real k"
proof (induction e rule: subtract_turns.induct)
  case (1 e)
  show ?case
  proof (cases "pi < e")
    case True
    then obtain k :: nat where "subtract_turns (e - 2 * pi) = e - 2 * pi - 2 * pi * real k"
      using "1.IH" by blast
    then have "subtract_turns e = e - 2 * pi * real (Suc k)"
      using True by (simp add: subtract_turns.simps [of e] algebra_simps)
    then show ?thesis by blast
  next
    case False
    then have "subtract_turns e = e - 2 * pi * real (0::nat)"
      by (simp add: subtract_turns.simps)
    then show ?thesis by blast
  qed
qed

lemma add_turns_ge: "- pi \<le> add_turns e"
  by (induction e rule: add_turns.induct) (simp add: add_turns.simps)

lemma add_turns_id: "- pi \<le> e \<Longrightarrow> add_turns e = e"
  by (simp add: add_turns.simps)

lemma add_turns_lt: "e < - pi \<Longrightarrow> add_turns e < pi"
proof (induction e rule: add_turns.induct)
  case (1 e)
  show ?case
  proof (cases "e + 2 * pi < - pi")
    case True
    then show ?thesis
      using "1.IH" "1.prems" by (simp add: add_turns.simps [of e])
  next
    case False
    then show ?thesis
      using "1.prems" by (simp add: add_turns.simps [of e] add_turns.simps [of "e + 2 * pi"])
  qed
qed

lemma add_turns_multiple: "\<exists>k::nat. add_turns e = e + 2 * pi * real k"
proof (induction e rule: add_turns.induct)
  case (1 e)
  show ?case
  proof (cases "e < - pi")
    case True
    then obtain k :: nat where "add_turns (e + 2 * pi) = e + 2 * pi + 2 * pi * real k"
      using "1.IH" by blast
    then have "add_turns e = e + 2 * pi * real (Suc k)"
      using True by (simp add: add_turns.simps [of e] algebra_simps)
    then show ?thesis by blast
  next
    case False
    then have "add_turns e = e + 2 * pi * real (0::nat)"
      by (simp add: add_turns.simps)
    then show ?thesis by blast
  qed
qed

lemma add_turns_odd_multiple: "add_turns (- pi - 2 * pi * real k) = - pi"
proof (induction k)
  case 0
  show ?case by (simp add: add_turns.simps)
next
  case (Suc k)
  have "- pi - 2 * pi * real (Suc k) < - pi"
    by simp
  then have "add_turns (- pi - 2 * pi * real (Suc k)) = add_turns (- pi - 2 * pi * real (Suc k) + 2 * pi)"
    by (subst add_turns.simps) simp
  also have "- pi - 2 * pi * real (Suc k) + 2 * pi = - pi - 2 * pi * real k"
    by (simp add: algebra_simps)
  finally show ?case
    using Suc.IH by simp
qed

lemma normalize_angle_range: "- pi \<le> normalize_angle e \<and> normalize_angle e \<le> pi"
proof (cases "pi < e")
  case True
  then have "- pi < subtract_turns e" "subtract_turns e \<le> pi"
    by (simp_all add: subtract_turns_gt subtract_turns_le)
  then show ?thesis
    by (simp add: normalize_angle_def add_turns_id)
next
  case False
  then have s: "subtract_turns e = e"
    by (simp add: subtract_turns_id)
  show ?thesis
  proof (cases "e < - pi")
    case True
    then show ?thesis
      using add_turns_lt [of e] add_turns_ge [of e] by (simp add: normalize_angle_def s)
  next
    case False
    then show ?thesis
      using \<open>\<not> pi < e\<close> by (simp add: normalize_angle_def s add_turns_id)
  qed
qed

lemma normalize_angle_multiple: "\<exists>k::int. normalize_angle e = e + 2 * pi * real_of_int k"
proof -
  obtain i :: nat where i: "subtract_turns e = e - 2 * pi * real i"
    using subtract_turns_multiple by blast
  obtain j :: nat where j: "add_turns (e - 2 * pi * real i) = e - 2 * pi * real i + 2 * pi * real j"
    using add_turns_multiple by blast
  have "normalize_angle e = e - 2 * pi * real i + 2 * pi * real j"
    by (simp only: normalize_angle_def i j)
  also have "\<dots> = e + 2 * pi * real_of_int (int j - int i)"
    by (simp add: algebra_simps)
  finally show ?thesis by blast
qed

lemma normalize_angle_lower_end:
  "normalize_angle e = - pi \<longleftrightarrow> (\<exists>k::nat. e = - pi - 2 * pi * real k)"
proof
  assume eq: "normalize_angle e = - pi"
  have "\<not> pi < e"
  proof
    assume "pi < e"
    then have "- pi < subtract_turns e"
      by (rule subtract_turns_gt)
    then have "add_turns (subtract_turns e) = subtract_turns e"
      by (simp add: add_turns_id)
    with \<open>- pi < subtract_turns e\<close> eq show False
      by (simp add: normalize_angle_def)
  qed
  then have "normalize_angle e = add_turns e"
    by (simp add: normalize_angle_def subtract_turns_id)
  moreover obtain k :: nat where "add_turns e = e + 2 * pi * real k"
    using add_turns_multiple by blast
  ultimately have "e = - pi - 2 * pi * real k"
    using eq by simp
  then show "\<exists>k::nat. e = - pi - 2 * pi * real k"
    by blast
next
  assume "\<exists>k::nat. e = - pi - 2 * pi * real k"
  then obtain k :: nat where k: "e = - pi - 2 * pi * real k"
    by blast
  have "e \<le> pi"
    unfolding k using pi_gt_zero by (smt (verit) mult_nonneg_nonneg of_nat_0_le_iff)
  then show "normalize_angle e = - pi"
    by (simp add: normalize_angle_def subtract_turns_id) (simp add: k add_turns_odd_multiple)
qed

lemma cos_taylor_12:
  fixes x :: real
  shows "\<bar>cos x - cos_poly x\<bar> \<le> \<bar>x\<bar>^12 / 479001600"
proof -
  obtain t where t: "cos x = (\<Sum>m<12. cos_coeff m * x ^ m) + cos (t + 1 / 2 * real 12 * pi) / fact 12 * x ^ 12"
    using Maclaurin_cos_expansion [of x 12] by blast
  have s: "(\<Sum>m<12. cos_coeff m * x ^ m) = cos_poly x"
    unfolding cos_poly_def
    by (simp add: lessThan_nat_numeral lessThan_Suc cos_coeff_def fact_numeral)
  have f: "fact 12 = (479001600::real)"
    by (simp add: fact_numeral)
  have "\<bar>cos (t + 1 / 2 * real 12 * pi) / fact 12 * x ^ 12\<bar> \<le> 1 / 479001600 * \<bar>x\<bar> ^ 12"
    unfolding f abs_mult abs_divide power_abs
    by (intro mult_right_mono divide_right_mono) (simp_all add: abs_cos_le_one)
  then show ?thesis
    using t s by simp
qed

lemma pi_lower: "3.14 < pi"
proof -
  have "\<bar>cos (157/100 :: real) - cos_poly (157/100)\<bar> \<le> \<bar>157/100\<bar>^12 / 479001600"
    by (rule cos_taylor_12)
  then have "cos_poly (157/100) - \<bar>157/100\<bar>^12 / 479001600 \<le> cos (157/100 :: real)"
    by linarith
  moreover have "0 < cos_poly (157/100) - \<bar>157/100 :: real\<bar>^12 / 479001600"
    by (simp add: cos_poly_def power_divide)
  ultimately have pos: "0 < cos (157/100 :: real)"
    by linarith
  have "157/100 < pi / 2"
  proof (rule ccontr)
    assume "\<not> 157/100 < pi / 2"
    then have "pi / 2 \<le> 157/100" by simp
    then have "cos (157/100) \<le> cos (pi / 2)"
      using pi_ge_two by (intro cos_monotone_0_pi_le) simp_all
    with pos show False by simp
  qed
  then show ?thesis by simp
qed

lemma pi_upper: "pi < 3.142"
proof -
  have "\<bar>cos (1571/1000 :: real) - cos_poly (1571/1000)\<bar> \<le> \<bar>1571/1000\<bar>^12 / 479001600"
    by (rule cos_taylor_12)
  then have "cos (1571/1000 :: real) \<le> cos_poly (1571/1000) + \<bar>1571/1000\<bar>^12 / 479001600"
    by linarith
  moreover have "cos_poly (1571/1000) + \<bar>1571/1000 :: real\<bar>^12 / 479001600 < 0"
    by (simp add: cos_poly_def power_divide)
  ultimately have neg: "cos (1571/1000 :: real) < 0"
    by linarith
  have "pi / 2 < 1571/1000"
  proof (rule ccontr)
    assume "\<not> pi / 2 < 1571/1000"
    then have "1571/1000 \<le> pi / 2" by simp
    then have "cos (pi / 2) \<le> cos (1571/1000)"
      using pi_ge_two by (intro cos_monotone_0_pi_le) simp_all
    with neg show False by simp
  qed
  then show ?thesis by simp
qed

lemma normalize_angle_3_2: "normalize_angle 3.2 = 3.2 - 2 * pi"
proof -
  have a: "pi < 3.2"
    using pi_upper by simp
  have b: "3.2 - 2 * pi \<le> pi"
    using pi_lower by simp
  have c: "- pi \<le> 3.2 - 2 * pi"
    using pi_upper by simp
  have "subtract_turns 3.2 = subtract_turns (3.2 - 2 * pi)"
    by (subst subtract_turns.simps) (use a in simp)
  also have "\<dots> = 3.2 - 2 * pi"
    using b by (rule subtract_turns_id)
  finally have "subtract_turns 3.2 = 3.2 - 2 * pi" .
  moreover have "add_turns (3.2 - 2 * pi) = 3.2 - 2 * pi"
    using c by (rule add_turns_id)
  ultimately show ?thesis
    by (simp only: normalize_angle_def)
qed

text \<open>
  C3, the claim as written, fails: with the robot at the origin heading \<open>pi\<close> (the
  inertial sensor reads 180 degrees) and the target at (24, 0), the angle error of
  \<open>moveTo\<close> is \<open>- pi\<close> and is left at \<open>- pi\<close>, outside the half-open interval; so is the
  error of \<open>turnTo\<close> to the angle 0.
\<close>

theorem angle_error_half_open_counterexample:
  "moveTo_angle_error \<lparr>pos_x = 0, pos_y = 0, heading = pi\<rparr> \<lparr>pt_x = 24, pt_y = 0\<rparr> False = - pi
   \<and> turnTo_error 0 pi = - pi
   \<and> \<not> (- pi < moveTo_angle_error \<lparr>pos_x = 0, pos_y = 0, heading = pi\<rparr> \<lparr>pt_x = 24, pt_y = 0\<rparr> False)"
  by (simp add: moveTo_angle_error_def turnTo_error_def angleTo_def atan2_def normalize_angle_def
      subtract_turns.simps [of "- pi"] add_turns.simps [of "- pi"])

text \<open>
  C3, amended: the normalisation of \<open>moveTo\<close> and \<open>turnTo\<close> maps every real angle error
  into the closed interval from \<open>- pi\<close> to \<open>pi\<close>, changing it by a whole multiple of
  \<open>2 pi\<close>; the result is \<open>- pi\<close> exactly for the errors \<open>- pi\<close>, \<open>- 3 pi\<close>, \<open>- 5 pi\<close>, ...,
  and so lies in the half-open interval for every other error. An error of 3.2 is
  normalised to \<open>3.2 - 2 pi\<close>, which is within 0.004 of -3.08.
\<close>

theorem normalize_angle_closed_interval:
  "- pi \<le> normalize_angle e \<and> normalize_angle e \<le> pi
   \<and> (\<exists>k::int. normalize_angle e = e + 2 * pi * real_of_int k)
   \<and> (normalize_angle e = - pi \<longleftrightarrow> (\<exists>k::nat. e = - pi - 2 * pi * real k))
   \<and> moveTo_angle_error current target reverse
       = normalize_angle (angleTo current target - heading current + (if reverse then pi else 0))
   \<and> turnTo_error angle (heading current) = normalize_angle (angle - heading current)
   \<and> normalize_angle 3.2 = 3.2 - 2 * pi
   \<and> \<bar>normalize_angle 3.2 - (- 3.08)\<bar> < 0.004"
proof -
  have "\<bar>(3.2 - 2 * pi) - (- 3.08)\<bar> < 0.004"
    using pi_lower pi_upper by (simp add: abs_less_iff)
  then have near: "\<bar>normalize_angle 3.2 - (- 3.08)\<bar> < 0.004"
    by (simp only: normalize_angle_3_2)
  have m: "moveTo_angle_error current target reverse
       = normalize_angle (angleTo current target - heading current + (if reverse then pi else 0))"
    by (simp add: moveTo_angle_error_def)
  have t: "turnTo_error angle (heading current) = normalize_angle (angle - heading current)"
    by (simp add: turnTo_error_def)
  show ?thesis
    using normalize_angle_range [of e] normalize_angle_multiple [of e]
      normalize_angle_lower_end [of e] m t normalize_angle_3_2 near
    by blast
qed

section \<open>Properties of driver control\<close>

lemma apply_to_motors_frame:
  "apply_to_motors left right i ch = ch\<lparr>motors := motors (apply_to_motors left right i ch)\<rparr>"
proof (induction left right i ch rule: apply_to_motors.induct)
  case (1 left right i ch)
  show ?case
  proof (cases "i < getMotorCount ch")
    case True
    let ?ch = "setMotorVelocity (int i) ((if i < getMotorCount ch div 2 then left else right) * 200) ch"
    have "apply_to_motors left right i ch = apply_to_motors left right (Suc i) ?ch"
      using True by (subst apply_to_motors.simps) simp
    moreover have "apply_to_motors left right (Suc i) ?ch
        = ?ch\<lparr>motors := motors (apply_to_motors left right (Suc i) ?ch)\<rparr>"
      using "1.IH" True by simp
    moreover have "?ch\<lparr>motors := ms\<rparr> = ch\<lparr>motors := ms\<rparr>" for ms
      by (simp add: setMotorVelocity_def)
    ultimately show ?thesis by simp
  next
    case False
    then show ?thesis by (simp add: apply_to_motors.simps)
  qed
qed

lemma apply_to_motors_nth:
  "length (motors (apply_to_motors left right i ch)) = length (motors ch)
   \<and> (\<forall>j < length (motors ch).
        motors (apply_to_motors left right i ch) ! j
          = (if i \<le> j
             then move_velocity (motors ch ! j)
                    ((if j < length (motors ch) div 2 then left else right) * 200)
             else motors ch ! j))"
proof (induction left right i ch rule: apply_to_motors.induct)
  case (1 left right i ch)
  show ?case
  proof (cases "i < getMotorCount ch")
    case True
    define v where "v = (if i < getMotorCount ch div 2 then left else right) * 200"
    define ch' where "ch' = setMotorVelocity (int i) v ch"
    have step: "apply_to_motors left right i ch = apply_to_motors left right (Suc i) ch'"
      using True by (subst apply_to_motors.simps) (simp add: ch'_def v_def)
    have ms: "motors ch' = (motors ch)[i := move_velocity (motors ch ! i) v]"
      using True by (simp add: ch'_def setMotorVelocity_def getMotorCount_def)
    have len: "length (motors ch') = length (motors ch)"
      by (simp add: ms)
    have IH: "length (motors (apply_to_motors left right (Suc i) ch')) = length (motors ch')
      \<and> (\<forall>j < length (motors ch').
           motors (apply_to_motors left right (Suc i) ch') ! j
             = (if Suc i \<le> j
                then move_velocity (motors ch' ! j)
                       ((if j < length (motors ch') div 2 then left else right) * 200)
                else motors ch' ! j))"
      using "1.IH" [OF True] unfolding ch'_def v_def .
    show ?thesis
    proof (intro conjI allI impI)
      show "length (motors (apply_to_motors left right i ch)) = length (motors ch)"
        using IH by (simp add: step len)
      fix j
      assume j: "j < length (motors ch)"
      then have nth: "motors (apply_to_motors left right i ch) ! j
             = (if Suc i \<le> j
                then move_velocity (motors ch' ! j)
                       ((if j < length (motors ch) div 2 then left else right) * 200)
                else motors ch' ! j)"
        using IH by (simp add: step len)
      consider "j < i" | "j = i" | "i < j"
        by linarith
      then show "motors (apply_to_motors left right i ch) ! j
          = (if i \<le> j
             then move_velocity (motors ch ! j)
                    ((if j < length (motors ch) div 2 then left else right) * 200)
             else motors ch ! j)"
      proof cases
        case 1
        then show ?thesis
          by (simp add: nth ms)
      next
        case 2
        then show ?thesis
          using j nth by (simp add: ms v_def getMotorCount_def)
      next
        case 3
        then show ?thesis
          by (simp add: nth ms)
      qed
    qed
  next
    case False
    then show ?thesis
      by (simp add: apply_to_motors.simps getMotorCount_def)
  qed
qed

lemma arcade_normalize_sums:
  "arcade_normalize (arcade_sums drive turn)
     = (let left = drive + turn; right = drive - turn; mx = max \<bar>left\<bar> \<bar>right\<bar>
        in if mx > 1 then (left / mx, right / mx) else (left, right))"
  by (simp add: arcade_normalize_def arcade_sums_def Let_def)

lemma processArcadeDrive_inputs:
  "dc_enabled dc \<Longrightarrow>
     processArcadeDrive split dc c ch
       = apply_to_motors
           (fst (arcade_normalize (arcade_sums (arcade_drive_input dc c) (arcade_turn_input split dc c))))
           (snd (arcade_normalize (arcade_sums (arcade_drive_input dc c) (arcade_turn_input split dc c))))
           0 ch"
  by (simp add: processArcadeDrive_def arcade_drive_input_def arcade_turn_input_def Let_def)

text \<open>
  C4: in the arcade and split modes of an enabled driver control, with \<open>drive\<close> and \<open>turn\<close>
  the inputs after dead zone, curve and turn scale, the mixed outputs are
  \<open>left = drive + turn\<close> and \<open>right = drive - turn\<close>; when the larger absolute value
  exceeds 1 both are divided by it, otherwise they are unchanged; motor \<open>i\<close> is then
  given the output of its half times 200, and nothing else of the chassis changes. In
  particular the inputs 1 and 1 give the sums 2 and 0, normalised to 1 and 0, and the
  inputs 0.5 and 0.5 with a turn scale of 0.8 give 0.9 and 0.1, left as they are.
\<close>

theorem processArcadeDrive_mixing:
  "(dc_enabled dc \<longrightarrow>
      length (motors (processArcadeDrive split dc c ch)) = length (motors ch)
      \<and> (\<forall>i < length (motors ch).
            motors (processArcadeDrive split dc c ch) ! i
              = move_velocity (motors ch ! i)
                  (spec_arcade_velocity (arcade_drive_input dc c) (arcade_turn_input split dc c)
                     (length (motors ch)) i))
      \<and> processArcadeDrive split dc c ch = ch\<lparr>motors := motors (processArcadeDrive split dc c ch)\<rparr>)
   \<and> arcade_normalize (arcade_sums drive turn)
       = (if max \<bar>drive + turn\<bar> \<bar>drive - turn\<bar> > 1
          then ((drive + turn) / max \<bar>drive + turn\<bar> \<bar>drive - turn\<bar>,
                (drive - turn) / max \<bar>drive + turn\<bar> \<bar>drive - turn\<bar>)
          else (drive + turn, drive - turn))
   \<and> arcade_sums 1 1 = (2, 0) \<and> arcade_normalize (2, 0) = (1, 0)
   \<and> arcade_sums 0.5 (0.5 * 0.8) = (0.9, 0.1) \<and> arcade_normalize (0.9, 0.1) = (0.9, 0.1)"
proof (intro conjI impI allI)
  assume en: "dc_enabled dc"
  let ?d = "arcade_drive_input dc c" and ?t = "arcade_turn_input split dc c"
  let ?lr = "arcade_normalize (arcade_sums ?d ?t)"
  have p: "processArcadeDrive split dc c ch = apply_to_motors (fst ?lr) (snd ?lr) 0 ch"
    using en by (rule processArcadeDrive_inputs)
  show "length (motors (processArcadeDrive split dc c ch)) = length (motors ch)"
    unfolding p using apply_to_motors_nth [of "fst ?lr" "snd ?lr" 0 ch] by blast
  show "processArcadeDrive split dc c ch = ch\<lparr>motors := motors (processArcadeDrive split dc c ch)\<rparr>"
    unfolding p by (rule apply_to_motors_frame)
  fix i
  assume i: "i < length (motors ch)"
  have "motors (apply_to_motors (fst ?lr) (snd ?lr) 0 ch) ! i
      = move_velocity (motors ch ! i) ((if i < length (motors ch) div 2 then fst ?lr else snd ?lr) * 200)"
    using apply_to_motors_nth [of "fst ?lr" "snd ?lr" 0 ch] i by simp
  moreover have "(if i < length (motors ch) div 2 then fst ?lr else snd ?lr) * 200
      = spec_arcade_velocity ?d ?t (length (motors ch)) i"
    by (simp add: spec_arcade_velocity_def arcade_normalize_sums Let_def)
  ultimately show "motors (processArcadeDrive split dc c ch) ! i
      = move_velocity (motors ch ! i) (spec_arcade_velocity ?d ?t (length (motors ch)) i)"
    unfolding p by simp
next
  show "arcade_normalize (arcade_sums drive turn)
       = (if max \<bar>drive + turn\<bar> \<bar>drive - turn\<bar> > 1
          then ((drive + turn) / max \<bar>drive + turn\<bar> \<bar>drive - turn\<bar>,
                (drive - turn) / max \<bar>drive + turn\<bar> \<bar>drive - turn\<bar>)
          else (drive + turn, drive - turn))"
    by (simp add: arcade_normalize_sums Let_def)
  show "arcade_sums 1 1 = (2, 0)"
    by (simp add: arcade_sums_def)
  show "arcade_normalize (2, 0) = (1, 0)"
    by (simp add: arcade_normalize_def)
  show "arcade_sums 0.5 (0.5 * 0.8) = (0.9, 0.1)"
    by (simp add: arcade_sums_def)
  show "arcade_normalize (0.9, 0.1) = (0.9, 0.1)"
    by (simp add: arcade_normalize_def)
qed

text \<open>
  With the default configuration and the left stick in the corner, \<open>drive\<close> is 1 and
  \<open>turn\<close> is 0.8: the sums 1.8 and 0.2 are divided by 1.8, and the two motors of
  \<open>demo_chassis\<close> are given 200 and 200/9.
\<close>

theorem processArcadeDrive_mixing_witness:
  "dc_enabled demo_driver
   \<and> arcade_drive_input demo_driver corner_controller = 1
   \<and> arcade_turn_input False demo_driver corner_controller = 0.8
   \<and> length (motors demo_chassis) = 2
   \<and> map velocity (motors (processArcadeDrive False demo_driver corner_controller demo_chassis))
       = [200, 200 / 9]"
proof -
  have en: "dc_enabled demo_driver"
    by (simp add: demo_driver_def)
  have d: "arcade_drive_input demo_driver corner_controller = 1"
    by (simp add: arcade_drive_input_def demo_driver_def DriverConfig_default_def
        corner_controller_def get_analog_def applyDeadzone_def applyCurve_def std_pow_def)
  have t: "arcade_turn_input False demo_driver corner_controller = 0.8"
    by (simp add: arcade_turn_input_def demo_driver_def DriverConfig_default_def
        corner_controller_def get_analog_def applyDeadzone_def applyCurve_def std_pow_def)
  have n: "length (motors demo_chassis) = 2"
    by (simp add: demo_chassis_unfolded)
  have v0: "spec_arcade_velocity 1 0.8 2 0 = 200" and v1: "spec_arcade_velocity 1 0.8 2 1 = 200 / 9"
    by (simp_all add: spec_arcade_velocity_def)
  note th = processArcadeDrive_mixing [of demo_driver False corner_controller demo_chassis 1 1]
  let ?ms = "motors (processArcadeDrive False demo_driver corner_controller demo_chassis)"
  have len: "length ?ms = 2"
    using th en n by simp
  have "velocity (?ms ! 0) = 200" "velocity (?ms ! 1) = 200 / 9"
    using th en n d t v0 v1 by (simp_all add: move_velocity_def)
  then have "map velocity ?ms = [200, 200 / 9]"
    using len by (cases ?ms; cases "tl ?ms") auto
  then show ?thesis
    using en d t n by simp
qed

end
